theory Spec2Isabelle
  imports Main
begin

section \<open>Errors, native faults and values\<close>

text \<open>
  The header \<^verbatim>\<open>promise.h\<close> defines a JavaScript-style promise: a shared settlement
  record (\<^verbatim>\<open>State\<close>) behind every promise object, two capabilities (\<^verbatim>\<open>m_resolveFn\<close>,
  \<^verbatim>\<open>m_rejectFn\<close>) bound to the record, chaining by \<^verbatim>\<open>then\<close> and \<^verbatim>\<open>catchError\<close>, and a
  synchronous drain of the callback queues (\<^verbatim>\<open>maybeInvoke\<close>).
\<close>

datatype PromiseState = Pending | Fulfilled | Rejected

record PromiseError =
  message :: string
  code :: int

definition fromException :: "string \<Rightarrow> PromiseError" where
  "fromException what = \<lparr>message = what, code = - 1\<rparr>"

definition unknownException :: PromiseError where
  "unknownException = \<lparr>message = ''Unknown exception'', code = - 1\<rparr>"

text \<open>A native fault is a thrown C++ object: a \<^verbatim>\<open>std::exception\<close> with its \<^verbatim>\<open>what()\<close>, or anything else.\<close>

datatype fault = StdException string | OtherFault

text \<open>The two \<^verbatim>\<open>catch\<close> clauses that follow every \<^verbatim>\<open>try\<close> of the header.\<close>

fun captured :: "fault \<Rightarrow> PromiseError" where
  "captured (StdException what) = fromException what"
| "captured OtherFault = unknownException"

definition cycleError :: PromiseError where
  "cycleError = \<lparr>message = ''Chaining cycle detected for promise'', code = - 1\<rparr>"

definition invalidReturnType :: PromiseError where
  "invalidReturnType = \<lparr>message = ''Invalid return type'', code = - 1\<rparr>"

definition noStateError :: PromiseError where
  "noStateError = \<lparr>message = ''Promise has no state'', code = - 1\<rparr>"

type_synonym addr = nat

text \<open>
  The template argument \<^verbatim>\<open>T\<close>: \<^verbatim>\<open>void\<close>, a plain value type (integers stand for it), or
  a promise type. A promise object is its static type and the shared pointer \<^verbatim>\<open>d\<close>
  (\<open>None\<close> for a default-constructed promise, whose \<^verbatim>\<open>m_resolveFn\<close> and \<^verbatim>\<open>m_rejectFn\<close>
  are empty as well).
\<close>

datatype ty = TVoid | TPlain | TPromise ty

datatype promise = Promise (ptype: ty) (d: "addr option")

datatype val = VVoid | VPlain int | VPromise promise

text \<open>\<^verbatim>\<open>T value{}\<close>: the value a fresh record holds.\<close>

fun defaultVal :: "ty \<Rightarrow> val" where
  "defaultVal TVoid = VVoid"
| "defaultVal TPlain = VPlain 0"
| "defaultVal (TPromise t) = VPromise (Promise t None)"

section \<open>Callbacks\<close>

text \<open>
  A user callback is given by what it does on each argument: it raises a fault or it
  returns. Its static return type \<^verbatim>\<open>R\<close> selects the \<^verbatim>\<open>if constexpr\<close> branches:
  \<^verbatim>\<open>void\<close>, a plain value, or a promise of the given value type.
\<close>

datatype 'a ufun =
    VoidFn "'a \<Rightarrow> fault option"
  | PlainFn "'a \<Rightarrow> fault + int"
  | PromiseFn ty "'a \<Rightarrow> fault + promise"

fun returnType :: "'a ufun \<Rightarrow> ty" where
  "returnType (VoidFn f) = TVoid"
| "returnType (PlainFn f) = TPlain"
| "returnType (PromiseFn t f) = TPromise t"

text \<open>\<^verbatim>\<open>U = conditional_t<PromiseTraits<R>::isPromise, PromiseTraits<R>::ValueType, decay_t<R>>\<close>\<close>

fun unwrap :: "ty \<Rightarrow> ty" where
  "unwrap (TPromise t) = t"
| "unwrap t = t"

text \<open>
  What \<^verbatim>\<open>then\<close> receives as \<^verbatim>\<open>onFulfilled\<close>: a user callback (with a label, for the
  trace of invocations), or the header's own lambda
  \<^verbatim>\<open>[resolve](const U& u) { resolve(u); }\<close> (also its zero-argument form), which returns
  \<^verbatim>\<open>void\<close>.
\<close>

datatype onFulfilled =
    UserF nat "val ufun"
  | ForwardResolve addr

fun inferU :: "onFulfilled \<Rightarrow> ty" where
  "inferU (UserF tag f) = unwrap (returnType f)"
| "inferU (ForwardResolve a) = TVoid"

text \<open>
  The closures stored in the two queues. \<open>HandleFulfilled onF U next cur\<close> is the lambda
  \<^verbatim>\<open>handleFulfilled\<close> of \<^verbatim>\<open>then\<close>: it captures \<^verbatim>\<open>onFulfilled\<close>, the capabilities
  \<^verbatim>\<open>resolve\<close>/\<^verbatim>\<open>reject\<close> of the new promise (record \<open>next\<close>) and \<^verbatim>\<open>currentState\<close>
  (record \<open>cur\<close>). \<open>HandleRejected\<close> is \<^verbatim>\<open>handleRejected\<close> with a user handler;
  \<open>RejectFwd a\<close> is any lambda whose body is \<^verbatim>\<open>reject(e)\<close> on record \<open>a\<close>;
  \<open>RawUser\<close> is a user callback handed to \<^verbatim>\<open>catchError\<close>; \<open>EmptyFn\<close> is an empty
  \<^verbatim>\<open>std::function\<close>.
\<close>

datatype thenCb = HandleFulfilled onFulfilled ty addr addr

datatype catchCb =
    HandleRejected nat "PromiseError ufun" ty addr addr
  | RejectFwd addr
  | RawUser nat "PromiseError \<Rightarrow> fault option"
  | EmptyFn

section \<open>The settlement record and the machine\<close>

text \<open>
  \<^verbatim>\<open>struct State\<close>. The field \<^verbatim>\<open>value\<close> is called \<open>stored\<close> here; the \<^verbatim>\<open>void\<close>
  specialization, which has no such field, keeps \<open>VVoid\<close> in it.
\<close>

record State =
  state :: PromiseState
  stored :: val
  error :: PromiseError
  thenCallbacks :: "thenCb list"
  catchCallbacks :: "catchCb list"

definition newState :: "ty \<Rightarrow> State" where
  "newState t = \<lparr>state = Pending, stored = defaultVal t,
     error = \<lparr>message = [], code = 0\<rparr>, thenCallbacks = [], catchCallbacks = []\<rparr>"

datatype event = InvokedF nat val | InvokedR nat PromiseError

text \<open>
  The machine: the records allocated by \<^verbatim>\<open>make_shared\<close> (addresses below \<open>fresh\<close>),
  and the trace of the user callbacks invoked so far.
\<close>

record machine =
  store :: "addr \<Rightarrow> State"
  fresh :: addr
  trace :: "event list"

text \<open>
  How a call ends: normally, by a fault that propagates to the caller, by dereferencing a
  null \<^verbatim>\<open>shared_ptr\<close>, or with the vector under iteration resized by a callback (both
  undefined behaviour). \<open>IllFormed\<close> marks a call that no program can contain, because
  the template it needs is rejected by the compiler. \<open>None\<close> is a call that does not
  return within the given depth.
\<close>

datatype status = Done | Raised fault | NullDeref | Invalidated | IllFormed

type_synonym outcome = "(status \<times> machine) option"

definition allocState :: "ty \<Rightarrow> machine \<Rightarrow> machine" where
  "allocState t m = m\<lparr>store := (store m)(fresh m := newState t), fresh := Suc (fresh m)\<rparr>"

definition settleFulfilled :: "addr \<Rightarrow> val \<Rightarrow> machine \<Rightarrow> machine" where
  "settleFulfilled a v m = m\<lparr>store := (store m)(a := (store m a)\<lparr>state := Fulfilled, stored := v\<rparr>)\<rparr>"

definition settleRejected :: "addr \<Rightarrow> PromiseError \<Rightarrow> machine \<Rightarrow> machine" where
  "settleRejected a e m = m\<lparr>store := (store m)(a := (store m a)\<lparr>state := Rejected, error := e\<rparr>)\<rparr>"

definition pushThen :: "addr \<Rightarrow> thenCb \<Rightarrow> machine \<Rightarrow> machine" where
  "pushThen a cb m = m\<lparr>store := (store m)(a := (store m a)\<lparr>thenCallbacks := thenCallbacks (store m a) @ [cb]\<rparr>)\<rparr>"

definition pushCatch :: "addr \<Rightarrow> catchCb \<Rightarrow> machine \<Rightarrow> machine" where
  "pushCatch a cb m = m\<lparr>store := (store m)(a := (store m a)\<lparr>catchCallbacks := catchCallbacks (store m a) @ [cb]\<rparr>)\<rparr>"

definition clearQueues :: "addr \<Rightarrow> machine \<Rightarrow> machine" where
  "clearQueues a m = m\<lparr>store := (store m)(a := (store m a)\<lparr>thenCallbacks := [], catchCallbacks := []\<rparr>)\<rparr>"

definition logEvent :: "event \<Rightarrow> machine \<Rightarrow> machine" where
  "logEvent ev m = m\<lparr>trace := trace m @ [ev]\<rparr>"

text \<open>Sequencing: the continuation runs only after a normal return.\<close>

definition andThen :: "outcome \<Rightarrow> (machine \<Rightarrow> outcome) \<Rightarrow> outcome" where
  "andThen r k = (case r of None \<Rightarrow> None
     | Some (s, m) \<Rightarrow> (case s of Done \<Rightarrow> k m | _ \<Rightarrow> Some (s, m)))"

text \<open>\<^verbatim>\<open>try { ... } catch (const std::exception& e) { h } catch (...) { h }\<close>\<close>

definition catching :: "outcome \<Rightarrow> (fault \<Rightarrow> machine \<Rightarrow> outcome) \<Rightarrow> outcome" where
  "catching r h = (case r of None \<Rightarrow> None
     | Some (s, m) \<Rightarrow> (case s of Raised x \<Rightarrow> h x m | _ \<Rightarrow> Some (s, m)))"

text \<open>
  \<^verbatim>\<open>for (auto& cb : queue) { if (cb) cb(arg); }\<close>. The loop walks the queue as it stood on
  entry; \<open>intact\<close> tells, after each callback, whether the vector still has its size (a
  callback that pushed onto it or cleared it has invalidated the loop's iterators).
\<close>

fun forEach :: "('c \<Rightarrow> machine \<Rightarrow> outcome) \<Rightarrow> (machine \<Rightarrow> bool) \<Rightarrow> 'c list \<Rightarrow> machine \<Rightarrow> outcome" where
  "forEach call intact [] m = Some (Done, m)"
| "forEach call intact (cb # cbs) m =
     (case call cb m of None \<Rightarrow> None
      | Some (s, m') \<Rightarrow> (case s of
            Done \<Rightarrow> (if intact m' then forEach call intact cbs m' else Some (Invalidated, m'))
          | _ \<Rightarrow> Some (s, m')))"

section \<open>Settlement, drain and chaining\<close>

text \<open>
  The closures of the header call one another; \<open>call\<close> names each of them with its
  arguments, and \<open>exec\<close> runs one call. Its first argument bounds the depth of nested
  calls: \<open>exec 0\<close> is \<open>None\<close>.

  \<^item> \<open>ResolveFn a v\<close>, \<open>RejectFn a e\<close>: \<^verbatim>\<open>m_resolveFn(v)\<close>, \<^verbatim>\<open>m_rejectFn(e)\<close> of the record
    \<open>a\<close> (\<^verbatim>\<open>statePtr\<close>). The branch \<^verbatim>\<open>if constexpr (PromiseTraits<T>::isPromise)\<close>, the one
    for a value that is a promise, is ill-formed for every \<^verbatim>\<open>T = Promise<U>\<close>: it reads
    \<^verbatim>\<open>value.d\<close>, a private member of another specialization, and it assigns a
    \<^verbatim>\<open>const U&\<close> to the field \<^verbatim>\<open>T value\<close>. So no program constructs a
    \<^verbatim>\<open>Promise<Promise<U>>\<close> from an executor, and none calls \<^verbatim>\<open>m_resolveFn\<close> with a promise.
  \<^item> \<open>MaybeInvoke a\<close>: \<^verbatim>\<open>State::maybeInvoke\<close> on record \<open>a\<close>.
  \<^item> \<open>CallThen cb v\<close>, \<open>CallCatch cb e\<close>: a call \<^verbatim>\<open>cb(value)\<close>, \<^verbatim>\<open>cb(error)\<close> of a queued
    closure.
  \<^item> \<open>Then p onF onR\<close>: \<^verbatim>\<open>p.then(onF)\<close> and \<^verbatim>\<open>p.then(onF, nullptr)\<close> when \<open>onR\<close> is
    \<open>None\<close>, \<^verbatim>\<open>p.then(onF, g)\<close> when it is \<open>Some g\<close>. The new promise is backed by the
    record at the address \<open>fresh\<close> of the machine the call starts from.
  \<^item> \<open>CatchError p cb\<close>: \<^verbatim>\<open>p.catchError(cb)\<close>.
\<close>

datatype call =
    ResolveFn addr val
  | RejectFn addr PromiseError
  | MaybeInvoke addr
  | CallThen thenCb val
  | CallCatch catchCb PromiseError
  | Then promise onFulfilled "(nat \<times> PromiseError ufun) option"
  | CatchError promise catchCb

primrec exec :: "nat \<Rightarrow> call \<Rightarrow> machine \<Rightarrow> outcome" where
  "exec 0 c m = None"
| "exec (Suc n) c m =
    (case c of
       ResolveFn a v \<Rightarrow>
         (if state (store m a) \<noteq> Pending then Some (Done, m)
          else (case v of
              VPromise p \<Rightarrow> Some (IllFormed, m)
            | _ \<Rightarrow> exec n (MaybeInvoke a) (settleFulfilled a v m)))
     | RejectFn a e \<Rightarrow>
         (if state (store m a) \<noteq> Pending then Some (Done, m)
          else exec n (MaybeInvoke a) (settleRejected a e m))
     | MaybeInvoke a \<Rightarrow>
         (if state (store m a) = Fulfilled then
            andThen (forEach (\<lambda>cb. exec n (CallThen cb (stored (store m a))))
                       (\<lambda>m'. length (thenCallbacks (store m' a)) = length (thenCallbacks (store m a)))
                       (thenCallbacks (store m a)) m)
              (\<lambda>m'. Some (Done, clearQueues a m'))
          else if state (store m a) = Rejected then
            andThen (forEach (\<lambda>cb. exec n (CallCatch cb (error (store m a))))
                       (\<lambda>m'. length (catchCallbacks (store m' a)) = length (catchCallbacks (store m a)))
                       (catchCallbacks (store m a)) m)
              (\<lambda>m'. Some (Done, clearQueues a m'))
          else Some (Done, m))
     | CallThen cb v \<Rightarrow>
         (case cb of HandleFulfilled onF U next cur \<Rightarrow>
            catching
              (case onF of
                 UserF tag uf \<Rightarrow>
                   (case uf of
                      VoidFn f \<Rightarrow>
                        (case f v of
                           Some x \<Rightarrow> Some (Raised x, logEvent (InvokedF tag v) m)
                         | None \<Rightarrow>
                             (if U = TVoid
                              then exec n (ResolveFn next VVoid) (logEvent (InvokedF tag v) m)
                              else exec n (RejectFn next invalidReturnType) (logEvent (InvokedF tag v) m)))
                    | PlainFn f \<Rightarrow>
                        (case f v of
                           Inl x \<Rightarrow> Some (Raised x, logEvent (InvokedF tag v) m)
                         | Inr r \<Rightarrow> exec n (ResolveFn next (VPlain r)) (logEvent (InvokedF tag v) m))
                    | PromiseFn t f \<Rightarrow>
                        (case f v of
                           Inl x \<Rightarrow> Some (Raised x, logEvent (InvokedF tag v) m)
                         | Inr result \<Rightarrow>
                             (if d result = Some cur
                              then exec n (RejectFn next cycleError) (logEvent (InvokedF tag v) m)
                              else andThen (exec n (Then result (ForwardResolve next) None)
                                              (logEvent (InvokedF tag v) m))
                                     (exec n (CatchError result (RejectFwd next))))))
               | ForwardResolve b \<Rightarrow>
                   andThen (exec n (ResolveFn b v) m)
                     (\<lambda>m'. if U = TVoid then exec n (ResolveFn next VVoid) m'
                            else exec n (RejectFn next invalidReturnType) m'))
              (\<lambda>x. exec n (RejectFn next (captured x))))
     | CallCatch cb e \<Rightarrow>
         (case cb of
            EmptyFn \<Rightarrow> Some (Done, m)
          | RejectFwd b \<Rightarrow> exec n (RejectFn b e) m
          | RawUser tag f \<Rightarrow>
              (case f e of
                 Some x \<Rightarrow> Some (Raised x, logEvent (InvokedR tag e) m)
               | None \<Rightarrow> Some (Done, logEvent (InvokedR tag e) m))
          | HandleRejected tag uf U next cur \<Rightarrow>
              catching
                (case uf of
                   VoidFn f \<Rightarrow>
                     (case f e of
                        Some x \<Rightarrow> Some (Raised x, logEvent (InvokedR tag e) m)
                      | None \<Rightarrow>
                          (if U = TVoid
                           then exec n (ResolveFn next VVoid) (logEvent (InvokedR tag e) m)
                           else exec n (RejectFn next invalidReturnType) (logEvent (InvokedR tag e) m)))
                 | PlainFn f \<Rightarrow>
                     (case f e of
                        Inl x \<Rightarrow> Some (Raised x, logEvent (InvokedR tag e) m)
                      | Inr r \<Rightarrow> exec n (ResolveFn next (VPlain r)) (logEvent (InvokedR tag e) m))
                 | PromiseFn t f \<Rightarrow>
                     (case f e of
                        Inl x \<Rightarrow> Some (Raised x, logEvent (InvokedR tag e) m)
                      | Inr result \<Rightarrow>
                          (if d result = Some cur
                           then exec n (RejectFn next cycleError) (logEvent (InvokedR tag e) m)
                           else andThen (exec n (Then result (ForwardResolve next) None)
                                           (logEvent (InvokedR tag e) m))
                                  (exec n (CatchError result (RejectFwd next))))))
                (\<lambda>x. exec n (RejectFn next (captured x))))
     | Then p onF onR \<Rightarrow>
         (case d p of
            None \<Rightarrow>
              (if onR \<noteq> None \<and> ptype p \<noteq> TVoid
               then Some (NullDeref, allocState (inferU onF) m)
               else exec n (RejectFn (fresh m) noStateError) (allocState (inferU onF) m))
          | Some cur \<Rightarrow>
              catching
                (if state (store (allocState (inferU onF) m) cur) = Fulfilled then
                   exec n (CallThen (HandleFulfilled onF (inferU onF) (fresh m) cur)
                             (stored (store (allocState (inferU onF) m) cur)))
                     (allocState (inferU onF) m)
                 else if state (store (allocState (inferU onF) m) cur) = Rejected then
                   exec n (CallCatch
                             (case onR of None \<Rightarrow> RejectFwd (fresh m)
                              | Some (tag, g) \<Rightarrow> HandleRejected tag g (inferU onF) (fresh m) cur)
                             (error (store (allocState (inferU onF) m) cur)))
                     (allocState (inferU onF) m)
                 else
                   Some (Done,
                     pushCatch cur
                       (case onR of None \<Rightarrow> RejectFwd (fresh m)
                        | Some (tag, g) \<Rightarrow> HandleRejected tag g (inferU onF) (fresh m) cur)
                       (pushThen cur (HandleFulfilled onF (inferU onF) (fresh m) cur)
                          (allocState (inferU onF) m))))
                (\<lambda>x. exec n (RejectFn (fresh m) (captured x))))
     | CatchError p cb \<Rightarrow>
         (case d p of
            None \<Rightarrow> Some (Done, m)
          | Some a \<Rightarrow> exec n (MaybeInvoke a) (pushCatch a cb m)))"

section \<open>The public operations\<close>

text \<open>
  An executor body is given by the calls it makes to its two capabilities, in order, and
  by how it ends: by returning or by raising a fault.
\<close>

datatype settleCall = CallResolve val | CallReject PromiseError

record executor =
  calls :: "settleCall list"
  raises :: "fault option"

fun capability :: "addr \<Rightarrow> settleCall \<Rightarrow> call" where
  "capability a (CallResolve v) = ResolveFn a v"
| "capability a (CallReject e) = RejectFn a e"

text \<open>
  \<^verbatim>\<open>explicit Promise(Executor executor)\<close>: allocate the record, run the executor inside
  \<^verbatim>\<open>try\<close>, and turn a fault into \<^verbatim>\<open>m_rejectFn(...)\<close>. The new record is at \<open>fresh m\<close>.
\<close>

definition newPromise :: "nat \<Rightarrow> ty \<Rightarrow> executor \<Rightarrow> machine \<Rightarrow> outcome" where
  "newPromise n t ex m =
     catching
       (andThen (forEach (\<lambda>c. exec n (capability (fresh m) c)) (\<lambda>m'. True) (calls ex) (allocState t m))
          (\<lambda>m'. case raises ex of None \<Rightarrow> Some (Done, m') | Some x \<Rightarrow> Some (Raised x, m')))
       (\<lambda>x. exec n (RejectFn (fresh m) (captured x)))"

text \<open>The members \<^verbatim>\<open>resolve\<close> and \<^verbatim>\<open>reject\<close>: \<^verbatim>\<open>if (m_resolveFn) m_resolveFn(value)\<close>.\<close>

definition resolve :: "nat \<Rightarrow> promise \<Rightarrow> val \<Rightarrow> machine \<Rightarrow> outcome" where
  "resolve n p v m = (case d p of None \<Rightarrow> Some (Done, m) | Some a \<Rightarrow> exec n (ResolveFn a v) m)"

definition reject :: "nat \<Rightarrow> promise \<Rightarrow> PromiseError \<Rightarrow> machine \<Rightarrow> outcome" where
  "reject n p e m = (case d p of None \<Rightarrow> Some (Done, m) | Some a \<Rightarrow> exec n (RejectFn a e) m)"

text \<open>The factories \<^verbatim>\<open>resolved(val)\<close> and \<^verbatim>\<open>rejected(err)\<close>: a promise whose executor settles it at once.\<close>

definition resolved :: "nat \<Rightarrow> ty \<Rightarrow> val \<Rightarrow> machine \<Rightarrow> outcome" where
  "resolved n t v m = newPromise n t \<lparr>calls = [CallResolve v], raises = None\<rparr> m"

definition rejected :: "nat \<Rightarrow> ty \<Rightarrow> PromiseError \<Rightarrow> machine \<Rightarrow> outcome" where
  "rejected n t e m = newPromise n t \<lparr>calls = [CallReject e], raises = None\<rparr> m"

text \<open>\<^verbatim>\<open>state()\<close>: \<^verbatim>\<open>d ? d->state : PromiseState::Pending\<close>.\<close>

definition stateOf :: "machine \<Rightarrow> promise \<Rightarrow> PromiseState" where
  "stateOf m p = (case d p of None \<Rightarrow> Pending | Some a \<Rightarrow> state (store m a))"

text \<open>The integer a callback on \<^verbatim>\<open>Promise<int>\<close> receives.\<close>

fun plainArg :: "val \<Rightarrow> int" where
  "plainArg (VPlain i) = i"
| "plainArg v = 0"

text \<open>The machine before any promise exists.\<close>

definition emptyMachine :: machine where
  "emptyMachine = \<lparr>store = (\<lambda>a. newState TVoid), fresh = 0, trace = []\<rparr>"

section \<open>Client programs and observations\<close>

text \<open>
  A client program is a sequence of constructions and calls; it stops at the first step
  that does not return normally.
\<close>

datatype step = Construct ty executor | Invoke call

fun runStep :: "nat \<Rightarrow> step \<Rightarrow> machine \<Rightarrow> outcome" where
  "runStep n (Construct t ex) m = newPromise n t ex m"
| "runStep n (Invoke c) m = exec n c m"

fun run :: "nat \<Rightarrow> step list \<Rightarrow> machine \<Rightarrow> outcome" where
  "run n [] m = Some (Done, m)"
| "run n (s # ss) m = andThen (runStep n s m) (run n ss)"

text \<open>What \<^verbatim>\<open>state()\<close>, \<^verbatim>\<open>value()\<close> and \<^verbatim>\<open>error()\<close> show of a record.\<close>

datatype settlement = StillPending | FulfilledWith val | RejectedWith PromiseError

definition settlement :: "State \<Rightarrow> settlement" where
  "settlement r = (case state r of Pending \<Rightarrow> StillPending
     | Fulfilled \<Rightarrow> FulfilledWith (stored r) | Rejected \<Rightarrow> RejectedWith (error r))"

definition observe :: "addr \<Rightarrow> outcome \<Rightarrow> (status \<times> settlement) option" where
  "observe a r = map_option (\<lambda>(s, m). (s, settlement (store m a))) r"

definition traced :: "outcome \<Rightarrow> (status \<times> event list) option" where
  "traced r = map_option (\<lambda>(s, m). (s, trace m)) r"

text \<open>
  \<open>frozen m m'\<close>: no record is lost, and every record that is settled in \<open>m\<close> has the
  same status, value and error in \<open>m'\<close>.
\<close>

definition frozen :: "machine \<Rightarrow> machine \<Rightarrow> bool" where
  "frozen m m' \<longleftrightarrow> fresh m \<le> fresh m' \<and>
     (\<forall>a. a < fresh m \<longrightarrow> state (store m a) \<noteq> Pending \<longrightarrow>
        state (store m' a) = state (store m a) \<and> stored (store m' a) = stored (store m a)
        \<and> error (store m' a) = error (store m a))"

text \<open>The fault a user callback raises on an argument, if it raises one.\<close>

fun faultOf :: "'a ufun \<Rightarrow> 'a \<Rightarrow> fault option" where
  "faultOf (VoidFn f) v = f v"
| "faultOf (PlainFn f) v = (case f v of Inl x \<Rightarrow> Some x | Inr r \<Rightarrow> None)"
| "faultOf (PromiseFn t f) v = (case f v of Inl x \<Rightarrow> Some x | Inr r \<Rightarrow> None)"

fun isPromiseVal :: "val \<Rightarrow> bool" where
  "isPromiseVal (VPromise p) = True"
| "isPromiseVal v = False"

fun plainCall :: "settleCall \<Rightarrow> bool" where
  "plainCall (CallResolve v) = (\<not> isPromiseVal v)"
| "plainCall (CallReject e) = True"

text \<open>
  \<open>quiescent m x\<close>: if the record \<open>x\<close> is settled, it has been drained (both queues are
  empty) and its value is not a promise.
\<close>

definition quiescent :: "machine \<Rightarrow> addr \<Rightarrow> bool" where
  "quiescent m x \<longleftrightarrow> (state (store m x) \<noteq> Pending \<longrightarrow>
     thenCallbacks (store m x) = [] \<and> catchCallbacks (store m x) = []
     \<and> \<not> isPromiseVal (stored (store m x)))"

text \<open>The record of the promise a user callback returns on an argument, if it returns one that has a record.\<close>

fun returned :: "'a ufun \<Rightarrow> 'a \<Rightarrow> addr option" where
  "returned (PromiseFn t f) v = (case f v of Inl x \<Rightarrow> None | Inr p \<Rightarrow> d p)"
| "returned uf v = None"

text \<open>
  \<open>chained old m a v h\<close>: \<open>h\<close> is the closure \<^verbatim>\<open>then\<close> builds on the promise at \<open>a\<close>
  around a user callback; the promise it settles was made after the records below \<open>old\<close>
  and is pending with empty queues in \<open>m\<close>; and a promise the callback returns on \<open>v\<close>
  is backed by a record below \<open>old\<close>.
\<close>

fun chained :: "addr \<Rightarrow> machine \<Rightarrow> addr \<Rightarrow> val \<Rightarrow> thenCb \<Rightarrow> bool" where
  "chained old m a v (HandleFulfilled onF U next cur) =
     ((case onF of
         UserF tag uf \<Rightarrow> U = unwrap (returnType uf)
           \<and> (case returned uf v of None \<Rightarrow> True | Some b \<Rightarrow> b < old)
       | _ \<Rightarrow> False)
      \<and> cur = a \<and> old \<le> next \<and> next < fresh m \<and> state (store m next) = Pending
      \<and> thenCallbacks (store m next) = [] \<and> catchCallbacks (store m next) = [])"

fun target :: "thenCb \<Rightarrow> addr" where
  "target (HandleFulfilled onF U next cur) = next"

fun invocation :: "val \<Rightarrow> thenCb \<Rightarrow> event list" where
  "invocation v (HandleFulfilled onF U next cur) =
     (case onF of UserF tag uf \<Rightarrow> [InvokedF tag v] | _ \<Rightarrow> [])"

text \<open>
  A rejection callback that returns normally on the error \<open>e\<close> and touches no record: a
  callback handed to \<^verbatim>\<open>catchError\<close> that does not raise on \<open>e\<close>, or an empty
  \<^verbatim>\<open>std::function\<close>. \<open>reported e cb\<close> is what its call adds to the trace.
\<close>

fun calm :: "PromiseError \<Rightarrow> catchCb \<Rightarrow> bool" where
  "calm e (RawUser tag f) = (f e = None)"
| "calm e EmptyFn = True"
| "calm e cb = False"

fun reported :: "PromiseError \<Rightarrow> catchCb \<Rightarrow> event list" where
  "reported e (RawUser tag f) = [InvokedR tag e]"
| "reported e cb = []"

text \<open>A callback handed to \<^verbatim>\<open>catchError\<close> (or an empty \<^verbatim>\<open>std::function\<close>), raising or not.\<close>

fun raw :: "catchCb \<Rightarrow> bool" where
  "raw (RawUser tag f) = True"
| "raw EmptyFn = True"
| "raw cb = False"


text \<open>How a call ends, and how many callbacks the two queues of a record hold then.\<close>

definition queued :: "addr \<Rightarrow> outcome \<Rightarrow> (status \<times> nat \<times> nat) option" where
  "queued a r = map_option (\<lambda>(s, m). (s, length (thenCallbacks (store m a)),
      length (catchCallbacks (store m a)))) r"


text \<open>Sample machines: records with empty queues at the addresses 0, 1, ...\<close>

definition recordWith :: "PromiseState \<Rightarrow> val \<Rightarrow> PromiseError \<Rightarrow> State" where
  "recordWith s v e = \<lparr>state = s, stored = v, error = e, thenCallbacks = [], catchCallbacks = []\<rparr>"

definition machineOf :: "State list \<Rightarrow> machine" where
  "machineOf rs = \<lparr>store = (\<lambda>a. if a < length rs then rs ! a else newState TVoid),
     fresh = length rs, trace = []\<rparr>"

definition boom :: PromiseError where
  "boom = \<lparr>message = ''boom'', code = 7\<rparr>"

definition noError :: PromiseError where
  "noError = \<lparr>message = [], code = 0\<rparr>"

text \<open>
  Sample callbacks: the rejection callbacks
  \<^verbatim>\<open>[](const PromiseError&) { throw std::runtime_error("boom"); }\<close> and
  \<^verbatim>\<open>[](const PromiseError&) { }\<close>, and continuations that return 1, that throw
  \<^verbatim>\<open>std::runtime_error("bad")\<close>, and that return the promise backed by record 0 or by
  record 1.
\<close>

definition raiseBoom :: "PromiseError \<Rightarrow> fault option" where
  "raiseBoom e = Some (StdException ''boom'')"

definition keepQuiet :: "PromiseError \<Rightarrow> fault option" where
  "keepQuiet e = None"




definition returnSecond :: "val \<Rightarrow> fault + promise" where
  "returnSecond v = Inr (Promise TPlain (Some 1))"

section \<open>Basic facts\<close>

lemmas ops = allocState_def settleFulfilled_def settleRejected_def pushThen_def pushCatch_def
  clearQueues_def logEvent_def andThen_def catching_def newState_def

lemmas obs = observe_def traced_def settlement_def

lemmas samples = machineOf_def recordWith_def boom_def noError_def

lemma andThen_Done: "andThen (Some (Done, m)) k = k m"
  by (simp add: andThen_def)



lemma faultOf_cases:
  assumes "faultOf uf v = Some x"
  obtains (Void) f where "uf = VoidFn f" and "f v = Some x"
    | (Plain) f where "uf = PlainFn f" and "f v = Inl x"
    | (Prom) t f where "uf = PromiseFn t f" and "f v = Inl x"
  using assms by (cases uf) (auto split: sum.splits)

section \<open>The depth bound\<close>

text \<open>
  A call that returns within a depth returns the same within any greater depth: \<open>None\<close>
  only ever says that the bound was too small.
\<close>

lemma andThen_mono:
  assumes "andThen r k = Some y" and "\<And>z. r = Some z \<Longrightarrow> r' = Some z"
    and "\<And>m1. k m1 = Some y \<Longrightarrow> k' m1 = Some y"
  shows "andThen r' k' = Some y"
  using assms by (auto simp: andThen_def split: option.splits status.splits)

lemma catching_mono:
  assumes "catching r h = Some y" and "\<And>z. r = Some z \<Longrightarrow> r' = Some z"
    and "\<And>x m1. h x m1 = Some y \<Longrightarrow> h' x m1 = Some y"
  shows "catching r' h' = Some y"
  using assms by (auto simp: catching_def split: option.splits status.splits)

lemma forEach_mono:
  assumes "forEach call intact cbs m = Some y"
    and "\<And>cb m1 z. call cb m1 = Some z \<Longrightarrow> call' cb m1 = Some z"
  shows "forEach call' intact cbs m = Some y"
  using assms
proof (induction cbs arbitrary: m)
  case Nil
  then show ?case by simp
next
  case (Cons cb cbs)
  then show ?case
    by (fastforce split: option.splits status.splits if_splits)
qed

lemma exec_deeper: "exec n c m = Some y \<Longrightarrow> exec (Suc n) c m = Some y"
proof (induction n arbitrary: c m y)
  case 0
  then show ?case by simp
next
  case (Suc n)
  note IH = Suc.IH
  from Suc.prems show ?case
    apply (subst exec.simps(2))
    apply (subst (asm) exec.simps(2))
    apply (cases c)
    apply (auto simp del: exec.simps
        split: if_splits val.splits thenCb.splits catchCb.splits onFulfilled.splits ufun.splits
          option.splits sum.splits prod.splits
        elim!: andThen_mono catching_mono forEach_mono intro: IH)
    done
qed

lemma exec_any_deeper: "exec n c m = Some y \<Longrightarrow> exec (n + k) c m = Some y"
  by (induction k) (auto simp del: exec.simps intro: exec_deeper)

section \<open>Three runs\<close>

text \<open>
  \<^verbatim>\<open>Promise<int>([](auto resolve, auto) { resolve(5); }).then([](int v) { return v + 1; })\<close>
  is fulfilled with 6;
  \<^verbatim>\<open>Promise<int>::rejected("boom", 7).then([](int v) { return v; }, [](auto& e) { return -1; })\<close>
  is fulfilled with -1; and a continuation registered on a pending promise is invoked with 3
  when the promise is resolved with 3 later.
\<close>

lemma run_resolve_then_increment:
  "observe 1
     (andThen (resolved (Suc (Suc (Suc (Suc 0)))) TPlain (VPlain 5) emptyMachine)
        (exec (Suc (Suc (Suc (Suc 0))))
           (Then (Promise TPlain (Some 0)) (UserF 1 (PlainFn (\<lambda>v. Inr (plainArg v + 1)))) None)))
   = Some (Done, FulfilledWith (VPlain 6))"
  by (simp add: ops obs resolved_def newPromise_def emptyMachine_def)

lemma run_rejected_then_handler:
  "observe 1
     (andThen (rejected (Suc (Suc (Suc (Suc 0)))) TPlain boom emptyMachine)
        (exec (Suc (Suc (Suc (Suc 0))))
           (Then (Promise TPlain (Some 0)) (UserF 1 (PlainFn (\<lambda>v. Inr (plainArg v))))
              (Some (2, PlainFn (\<lambda>e. Inr (- 1)))))))
   = Some (Done, FulfilledWith (VPlain (- 1)))"
  by (simp add: ops obs rejected_def newPromise_def emptyMachine_def)

lemma run_then_on_pending:
  "map_option (\<lambda>(s, m). (s, settlement (store m 1), trace m))
     (run (Suc (Suc (Suc (Suc (Suc 0)))))
        [Construct TPlain \<lparr>calls = [], raises = None\<rparr>,
         Invoke (Then (Promise TPlain (Some 0)) (UserF 1 (PlainFn (\<lambda>v. Inr (plainArg v + 1)))) None),
         Invoke (ResolveFn 0 (VPlain 3))]
        emptyMachine)
   = Some (Done, FulfilledWith (VPlain 4), [InvokedF 1 (VPlain 3)])"
  by (simp add: ops obs newPromise_def emptyMachine_def)

section \<open>Settled records stay as they are\<close>

lemma frozen_refl: "frozen m m"
  by (simp add: frozen_def)

lemma frozen_alloc: "frozen m0 m \<Longrightarrow> frozen m0 (allocState t m)"
  by (auto simp: frozen_def allocState_def)

lemma frozen_settleFulfilled:
  "frozen m0 m \<Longrightarrow> state (store m a) = Pending \<Longrightarrow> frozen m0 (settleFulfilled a v m)"
  by (auto simp: frozen_def settleFulfilled_def)

lemma frozen_settleRejected:
  "frozen m0 m \<Longrightarrow> state (store m a) = Pending \<Longrightarrow> frozen m0 (settleRejected a e m)"
  by (auto simp: frozen_def settleRejected_def)

lemma frozen_pushThen: "frozen m0 m \<Longrightarrow> frozen m0 (pushThen a cb m)"
  by (auto simp: frozen_def pushThen_def)

lemma frozen_pushCatch: "frozen m0 m \<Longrightarrow> frozen m0 (pushCatch a cb m)"
  by (auto simp: frozen_def pushCatch_def)

lemma frozen_clearQueues: "frozen m0 m \<Longrightarrow> frozen m0 (clearQueues a m)"
  by (auto simp: frozen_def clearQueues_def)

lemma frozen_logEvent: "frozen m0 m \<Longrightarrow> frozen m0 (logEvent ev m)"
  by (auto simp: frozen_def logEvent_def)

lemmas frozen_prims = frozen_alloc frozen_settleFulfilled frozen_settleRejected frozen_pushThen
  frozen_pushCatch frozen_clearQueues frozen_logEvent

lemma andThen_frozen:
  assumes "andThen r k = Some (s, m')"
    and "\<And>s1 m1. r = Some (s1, m1) \<Longrightarrow> frozen m0 m1"
    and "\<And>m1. frozen m0 m1 \<Longrightarrow> k m1 = Some (s, m') \<Longrightarrow> frozen m0 m'"
  shows "frozen m0 m'"
  using assms by (auto simp: andThen_def split: option.splits status.splits)

lemma catching_frozen:
  assumes "catching r h = Some (s, m')"
    and "\<And>s1 m1. r = Some (s1, m1) \<Longrightarrow> frozen m0 m1"
    and "\<And>x m1. frozen m0 m1 \<Longrightarrow> h x m1 = Some (s, m') \<Longrightarrow> frozen m0 m'"
  shows "frozen m0 m'"
  using assms by (auto simp: catching_def split: option.splits status.splits)

lemma forEach_frozen:
  assumes "forEach call intact cbs m = Some (s, m')"
    and "frozen m0 m"
    and "\<And>cb m1 s2 m2. frozen m0 m1 \<Longrightarrow> call cb m1 = Some (s2, m2) \<Longrightarrow> frozen m0 m2"
  shows "frozen m0 m'"
  using assms
proof (induction cbs arbitrary: m)
  case Nil
  then show ?case by simp
next
  case (Cons cb cbs)
  then show ?case
    by (fastforce split: option.splits status.splits if_splits)
qed

lemma exec_frozen:
  "exec n c m = Some (s, m') \<Longrightarrow> frozen m0 m \<Longrightarrow> frozen m0 m'"
proof (induction n arbitrary: c m s m')
  case 0
  then show ?case by simp
next
  case (Suc n)
  note IH = Suc.IH
  show ?case
  proof (cases c)
    case (ResolveFn a v)
    with Suc.prems show ?thesis
      by (auto split: if_splits val.splits elim!: andThen_frozen intro: IH frozen_prims)
  next
    case (RejectFn a e)
    with Suc.prems show ?thesis
      by (auto split: if_splits intro: IH frozen_prims)
  next
    case (MaybeInvoke a)
    with Suc.prems show ?thesis
      by (auto split: if_splits elim!: andThen_frozen forEach_frozen intro: IH frozen_prims)
  next
    case (CallThen cb v)
    with Suc.prems show ?thesis
      by (auto split: if_splits thenCb.splits onFulfilled.splits ufun.splits option.splits sum.splits
          elim!: andThen_frozen catching_frozen intro: IH frozen_prims)
  next
    case (CallCatch cb e)
    with Suc.prems show ?thesis
      by (auto split: if_splits catchCb.splits ufun.splits option.splits sum.splits
          elim!: andThen_frozen catching_frozen intro: IH frozen_prims)
  next
    case (Then p onF onR)
    with Suc.prems show ?thesis
      by (auto split: if_splits option.splits prod.splits
          elim!: andThen_frozen catching_frozen intro: IH frozen_prims)
  next
    case (CatchError p cb)
    with Suc.prems show ?thesis
      by (auto split: if_splits option.splits intro: IH frozen_prims)
  qed
qed

lemma newPromise_frozen:
  assumes "newPromise n t ex m = Some (s, m')" and "frozen m0 m"
  shows "frozen m0 m'"
proof -
  have alloc: "frozen m0 (allocState t m)"
    using assms(2) by (rule frozen_alloc)
  have body: "frozen m0 m1"
    if "andThen (forEach (\<lambda>c. exec n (capability (fresh m) c)) (\<lambda>m'. True) (calls ex) (allocState t m))
          (\<lambda>m'. case raises ex of None \<Rightarrow> Some (Done, m') | Some x \<Rightarrow> Some (Raised x, m'))
        = Some (s1, m1)" for s1 m1
    using that
    by (elim andThen_frozen forEach_frozen[OF _ alloc] exec_frozen) (auto elim: exec_frozen split: option.splits)
  from assms(1) show ?thesis
    unfolding newPromise_def
    by (elim catching_frozen) (auto elim: exec_frozen body)
qed

lemma run_frozen:
  "run n prog m = Some (s, m') \<Longrightarrow> frozen m0 m \<Longrightarrow> frozen m0 m'"
proof (induction prog arbitrary: m)
  case Nil
  then show ?case by simp
next
  case (Cons st prog)
  from Cons.prems(1) have "andThen (runStep n st m) (run n prog) = Some (s, m')" by simp
  then show ?case
  proof (rule andThen_frozen)
    fix s1 m1 assume "runStep n st m = Some (s1, m1)"
    with Cons.prems(2) show "frozen m0 m1"
      by (cases st) (auto elim: exec_frozen newPromise_frozen)
  next
    fix m1 assume "frozen m0 m1" and "run n prog m1 = Some (s, m')"
    then show "frozen m0 m'" by (rule Cons.IH[rotated])
  qed
qed

lemma resolve_sticks:
  assumes "exec k (ResolveFn a v) m = Some (s, m')" and "a < fresh m"
    and "state (store m a) = Pending" and "\<not> isPromiseVal v"
  shows "settlement (store m' a) = FulfilledWith v"
proof (cases k)
  case 0
  with assms(1) show ?thesis by simp
next
  case (Suc n)
  with assms(1,3,4) have "exec n (MaybeInvoke a) (settleFulfilled a v m) = Some (s, m')"
    by (cases v) simp_all
  then have "frozen (settleFulfilled a v m) m'"
    using frozen_refl by (rule exec_frozen)
  with assms(2) show ?thesis
    by (simp add: frozen_def settleFulfilled_def settlement_def)
qed

lemma reject_sticks:
  assumes "exec k (RejectFn a e) m = Some (s, m')" and "a < fresh m"
    and "state (store m a) = Pending"
  shows "settlement (store m' a) = RejectedWith e"
proof (cases k)
  case 0
  with assms(1) show ?thesis by simp
next
  case (Suc n)
  with assms(1,3) have "exec n (MaybeInvoke a) (settleRejected a e m) = Some (s, m')"
    by simp
  then have "frozen (settleRejected a e m) m'"
    using frozen_refl by (rule exec_frozen)
  with assms(2) show ?thesis
    by (simp add: frozen_def settleRejected_def settlement_def)
qed

text \<open>
  C3. Settlement happens at most once. On a record that has left \<open>Pending\<close>, a further
  call of \<^verbatim>\<open>resolve\<close> or \<^verbatim>\<open>reject\<close> returns at once and changes nothing at all; this
  holds in every machine, so also for a call made by a continuation in the middle of a
  drain. Whatever a client program does afterwards (constructions, \<^verbatim>\<open>then\<close>,
  \<^verbatim>\<open>catchError\<close>, \<^verbatim>\<open>resolve\<close>, \<^verbatim>\<open>reject\<close>, in any order), the status, the stored value
  and the stored error of a settled record stay as they are. And the first transition
  itself decides: however the drain that follows \<^verbatim>\<open>resolve(v)\<close> or \<^verbatim>\<open>reject(e)\<close> on a
  pending record ends, the record is then fulfilled with \<open>v\<close>, respectively rejected with
  \<open>e\<close>.
\<close>

theorem settlement_at_most_once:
  assumes "a < fresh m"
  shows "(state (store m a) \<noteq> Pending \<longrightarrow>
            exec (Suc n) (ResolveFn a v) m = Some (Done, m)
          \<and> exec (Suc n) (RejectFn a e) m = Some (Done, m)
          \<and> (run k prog m = Some (s, m') \<longrightarrow>
                state (store m' a) = state (store m a) \<and> stored (store m' a) = stored (store m a)
                \<and> error (store m' a) = error (store m a)))
       \<and> (state (store m a) = Pending \<and> \<not> isPromiseVal v \<and> exec k (ResolveFn a v) m = Some (s, m') \<longrightarrow>
            settlement (store m' a) = FulfilledWith v)
       \<and> (state (store m a) = Pending \<and> exec k (RejectFn a e) m = Some (s, m') \<longrightarrow>
            settlement (store m' a) = RejectedWith e)"
proof (intro conjI impI)
  assume "state (store m a) \<noteq> Pending"
  then show "exec (Suc n) (ResolveFn a v) m = Some (Done, m)"
    and "exec (Suc n) (RejectFn a e) m = Some (Done, m)" by simp_all
next
  assume st: "state (store m a) \<noteq> Pending" and r: "run k prog m = Some (s, m')"
  from r frozen_refl have fr: "frozen m m'" by (rule run_frozen)
  with assms st show "state (store m' a) = state (store m a)" by (simp add: frozen_def)
  from fr assms st show "stored (store m' a) = stored (store m a)" by (simp add: frozen_def)
  from fr assms st show "error (store m' a) = error (store m a)" by (simp add: frozen_def)
next
  assume "state (store m a) = Pending \<and> \<not> isPromiseVal v \<and> exec k (ResolveFn a v) m = Some (s, m')"
  with assms show "settlement (store m' a) = FulfilledWith v"
    by (auto intro: resolve_sticks)
next
  assume "state (store m a) = Pending \<and> exec k (RejectFn a e) m = Some (s, m')"
  with assms show "settlement (store m' a) = RejectedWith e"
    by (auto intro: reject_sticks)
qed

text \<open>
  The second machine of the example below holds a promise (record 0) that waits for itself: its
  fulfilment queue holds the forwarder \<^verbatim>\<open>[resolve](const U& u) { resolve(u); }\<close> of its own
  \<^verbatim>\<open>resolve\<close>, so the drain calls \<^verbatim>\<open>resolve\<close> on the record it is draining.
\<close>

theorem settlement_at_most_once_witness:
  "exec (Suc 0) (ResolveFn 0 (VPlain 9)) (machineOf [recordWith Fulfilled (VPlain 5) noError])
       = Some (Done, machineOf [recordWith Fulfilled (VPlain 5) noError])
   \<and> exec (Suc 0) (RejectFn 0 boom) (machineOf [recordWith Fulfilled (VPlain 5) noError])
       = Some (Done, machineOf [recordWith Fulfilled (VPlain 5) noError])
   \<and> settlement (store (snd (the (run (Suc (Suc (Suc (Suc (Suc 0)))))
         [Invoke (RejectFn 0 boom), Invoke (ResolveFn 0 (VPlain 9)),
          Invoke (Then (Promise TPlain (Some 0)) (UserF 1 (PlainFn (\<lambda>v. Inr 0))) None)]
         (machineOf [recordWith Fulfilled (VPlain 5) noError])))) 0)
       = FulfilledWith (VPlain 5)
   \<and> settlement (store (snd (the (exec (Suc (Suc (Suc (Suc (Suc (Suc 0)))))) (ResolveFn 0 (VPlain 7))
         (machineOf [(recordWith Pending (VPlain 0) noError)
                       \<lparr>thenCallbacks := [HandleFulfilled (ForwardResolve 0) TVoid 1 0]\<rparr>,
                     recordWith Pending VVoid noError])))) 0)
       = FulfilledWith (VPlain 7)
   \<and> settlement (store (snd (the (exec (Suc (Suc (Suc (Suc (Suc (Suc 0)))))) (RejectFn 0 boom)
         (machineOf [(recordWith Pending (VPlain 0) noError)
                       \<lparr>thenCallbacks := [HandleFulfilled (ForwardResolve 0) TVoid 1 0]\<rparr>,
                     recordWith Pending VVoid noError])))) 0)
       = RejectedWith boom"
proof -
  let ?m = "machineOf [recordWith Fulfilled (VPlain 5) noError]"
  let ?prog = "[Invoke (RejectFn 0 boom), Invoke (ResolveFn 0 (VPlain 9)),
          Invoke (Then (Promise TPlain (Some 0)) (UserF 1 (PlainFn (\<lambda>v. Inr 0))) None)]"
  let ?r = "run (Suc (Suc (Suc (Suc (Suc 0))))) ?prog ?m"
  let ?w = "machineOf [(recordWith Pending (VPlain 0) noError)
                       \<lparr>thenCallbacks := [HandleFulfilled (ForwardResolve 0) TVoid 1 0]\<rparr>,
                     recordWith Pending VVoid noError]"
  let ?K = "Suc (Suc (Suc (Suc (Suc (Suc 0)))))"
  let ?r1 = "exec ?K (ResolveFn 0 (VPlain 7)) ?w"
  let ?r2 = "exec ?K (RejectFn 0 boom) ?w"
  have h1: "0 < fresh ?m" by (simp add: samples)
  have h2: "state (store ?m 0) \<noteq> Pending" by (simp add: samples)
  have h3: "?r = Some (fst (the ?r), snd (the ?r))" by (simp add: samples ops)
  have v: "state (store ?m 0) = Fulfilled" "stored (store ?m 0) = VPlain 5" by (simp_all add: samples)
  from settlement_at_most_once[OF h1, of 0 "VPlain 9" boom "Suc (Suc (Suc (Suc (Suc 0))))" ?prog
      "fst (the ?r)" "snd (the ?r)"] h2 h3 v
  have c1: "exec (Suc 0) (ResolveFn 0 (VPlain 9)) ?m = Some (Done, ?m)"
    and c2: "exec (Suc 0) (RejectFn 0 boom) ?m = Some (Done, ?m)"
    and c3: "settlement (store (snd (the ?r)) 0) = FulfilledWith (VPlain 5)"
    by (simp_all add: settlement_def del: exec.simps run.simps)
  have w1: "0 < fresh ?w" by (simp add: samples)
  have w2: "state (store ?w 0) = Pending" "\<not> isPromiseVal (VPlain 7)" by (simp_all add: samples)
  have w3: "?r1 = Some (fst (the ?r1), snd (the ?r1))" by (simp add: samples ops)
  have w4: "?r2 = Some (fst (the ?r2), snd (the ?r2))" by (simp add: samples ops)
  from settlement_at_most_once[OF w1, of 0 "VPlain 7" boom ?K _ "fst (the ?r1)" "snd (the ?r1)"] w2 w3
  have c4: "settlement (store (snd (the ?r1)) 0) = FulfilledWith (VPlain 7)"
    by (simp del: exec.simps run.simps)
  from settlement_at_most_once[OF w1, of 0 _ boom ?K _ "fst (the ?r2)" "snd (the ?r2)"] w2 w4
  have c5: "settlement (store (snd (the ?r2)) 0) = RejectedWith boom"
    by (simp del: exec.simps run.simps)
  from c1 c2 c3 c4 c5 show ?thesis by (simp del: exec.simps run.simps)
qed

section \<open>Chaining from a promise without a record\<close>

text \<open>
  A default-constructed promise reads as pending, its \<^verbatim>\<open>resolve\<close>, \<^verbatim>\<open>reject\<close> and
  \<^verbatim>\<open>catchError\<close> do nothing, and the overloads of \<^verbatim>\<open>then\<close> that test \<^verbatim>\<open>if (!d)\<close> (the
  one-handler overloads of both variants, and the two-handler overload of the \<^verbatim>\<open>void\<close>
  variant) return a promise rejected with "Promise has no state".
\<close>

lemma default_promise_guarded:
  "stateOf m (Promise t None) = Pending"
  "resolve n (Promise t None) v m = Some (Done, m)"
  "reject n (Promise t None) e m = Some (Done, m)"
  "exec (Suc n) (CatchError (Promise t None) cb) m = Some (Done, m)"
  "observe (fresh m) (exec (Suc (Suc (Suc n))) (Then (Promise t None) onF None) m)
     = Some (Done, RejectedWith noStateError)"
  "observe (fresh m) (exec (Suc (Suc (Suc n))) (Then (Promise TVoid None) onF onR) m)
     = Some (Done, RejectedWith noStateError)"
  by (simp_all add: ops obs stateOf_def resolve_def reject_def)

text \<open>
  C2. The two-handler overload \<^verbatim>\<open>then(F&&, G&&)\<close> of the value-bearing variant has no
  test of \<^verbatim>\<open>d\<close>: on a default-constructed promise the executor of the new promise reads
  \<^verbatim>\<open>currentState->state\<close> through a null pointer, after the new record has been
  allocated. No rejected promise is returned.
\<close>

theorem then_two_handlers_without_record:
  "exec (Suc n) (Then (Promise TPlain None) onF (Some g)) m
     = Some (NullDeref, allocState (inferU onF) m)"
  by simp

section \<open>Faults of the executor\<close>

text \<open>
  C7 (amended). An executor body that raises a native fault without having called
  \<^verbatim>\<open>resolve\<close> or \<^verbatim>\<open>reject\<close> leaves the promise rejected, with code -1 and with the
  message of the fault when it is a standard exception, "Unknown exception" otherwise;
  the construction returns normally.
\<close>

theorem executor_fault_rejects:
  "observe (fresh m) (newPromise (Suc (Suc n)) t \<lparr>calls = [], raises = Some x\<rparr> m)
     = Some (Done, RejectedWith (captured x))
   \<and> code (captured x) = - 1
   \<and> message (captured x) = (case x of StdException what \<Rightarrow> what | OtherFault \<Rightarrow> ''Unknown exception'')"
  by (cases x) (simp_all add: ops obs newPromise_def fromException_def unknownException_def)

text \<open>
  As the specification states it, C7 fails: the executor
  \<^verbatim>\<open>{ resolve(5); throw std::runtime_error("late"); }\<close>
  leaves the promise fulfilled with 5, since \<^verbatim>\<open>m_rejectFn\<close> returns at once on a settled
  record.
\<close>

theorem executor_fault_after_resolve:
  "observe 0
     (newPromise (Suc (Suc (Suc 0))) TPlain
        \<lparr>calls = [CallResolve (VPlain 5)], raises = Some (StdException ''late'')\<rparr> emptyMachine)
   = Some (Done, FulfilledWith (VPlain 5))"
  by (simp add: ops obs newPromise_def emptyMachine_def)

section \<open>Rejection forwarding\<close>

text \<open>
  C8. On an already rejected promise, \<^verbatim>\<open>then(f)\<close> without a rejection handler returns a
  promise that is rejected with the very error of the source (message and code), and \<open>f\<close>
  is not invoked: the trace of invocations is unchanged.
\<close>

theorem rejection_forwarding:
  assumes "state (store m a) = Rejected" and "a < fresh m"
  shows "observe (fresh m)
           (exec (Suc (Suc (Suc (Suc n)))) (Then (Promise t (Some a)) (UserF tag f) None) m)
         = Some (Done, RejectedWith (error (store m a)))
       \<and> traced (exec (Suc (Suc (Suc (Suc n)))) (Then (Promise t (Some a)) (UserF tag f) None) m)
         = Some (Done, trace m)"
  using assms by (simp add: ops obs)

theorem rejection_forwarding_witness:
  "state (store (machineOf [recordWith Rejected (VPlain 0) boom]) 0) = Rejected
   \<and> 0 < fresh (machineOf [recordWith Rejected (VPlain 0) boom])
   \<and> observe (fresh (machineOf [recordWith Rejected (VPlain 0) boom]))
        (exec (Suc (Suc (Suc (Suc 0))))
           (Then (Promise TPlain (Some 0)) (UserF 1 (PlainFn (\<lambda>v. Inr 0))) None)
           (machineOf [recordWith Rejected (VPlain 0) boom]))
      = Some (Done, RejectedWith boom)
   \<and> traced
        (exec (Suc (Suc (Suc (Suc 0))))
           (Then (Promise TPlain (Some 0)) (UserF 1 (PlainFn (\<lambda>v. Inr 0))) None)
           (machineOf [recordWith Rejected (VPlain 0) boom]))
      = Some (Done, [])"
proof -
  let ?m = "machineOf [recordWith Rejected (VPlain 0) boom]"
  have h1: "state (store ?m 0) = Rejected" by (simp add: samples)
  have h2: "0 < fresh ?m" by (simp add: samples)
  have v: "error (store ?m 0) = boom" "trace ?m = []" by (simp_all add: samples)
  from rejection_forwarding[OF h1 h2, of 0 TPlain 1 "PlainFn (\<lambda>v. Inr 0)"] h1 h2 v
  show ?thesis by (simp del: exec.simps)
qed

section \<open>Callbacks that return nothing\<close>



section \<open>Drains that run to their end\<close>

lemma forEach_append:
  "forEach call intact (xs @ ys) m = andThen (forEach call intact xs m) (forEach call intact ys)"
  by (induction xs arbitrary: m) (simp_all add: andThen_def split: option.splits status.splits)

lemma forEach_calm:
  assumes "\<forall>cb\<in>set q. calm e cb" and "\<And>tr. intact (m\<lparr>trace := tr\<rparr>)"
  shows "forEach (\<lambda>cb. exec (Suc n) (CallCatch cb e)) intact q m
         = Some (Done, m\<lparr>trace := trace m @ concat (map (reported e) q)\<rparr>)"
  using assms
proof (induction q arbitrary: m)
  case Nil
  then show ?case by simp
next
  case (Cons cb q)
  from Cons.prems(1) have rest: "\<forall>cb\<in>set q. calm e cb" and cb: "calm e cb" by simp_all
  from cb have step: "exec (Suc n) (CallCatch cb e) m = Some (Done, m\<lparr>trace := trace m @ reported e cb\<rparr>)"
    by (cases cb) (simp_all add: logEvent_def)
  have ok: "intact (m\<lparr>trace := trace m @ reported e cb\<rparr>)" by (rule Cons.prems(2))
  have "\<And>tr. intact (m\<lparr>trace := trace m @ reported e cb\<rparr>\<lparr>trace := tr\<rparr>)"
    using Cons.prems(2) by simp
  from Cons.IH[OF rest this] step ok show ?case by (simp del: exec.simps)
qed

lemma forEach_calm_first:
  assumes "\<forall>cb\<in>set q. calm e cb" and "\<forall>tr. intact (m\<lparr>trace := tr\<rparr>)"
  shows "forEach (\<lambda>cb. exec (Suc n) (CallCatch cb e)) intact (q @ rest) m
         = forEach (\<lambda>cb. exec (Suc n) (CallCatch cb e)) intact rest
             (m\<lparr>trace := trace m @ concat (map (reported e) q)\<rparr>)"
  using assms by (simp add: forEach_append forEach_calm andThen_Done del: exec.simps)

lemma drain_rejected_calm:
  assumes "state (store m a) = Rejected" and "\<forall>cb\<in>set (catchCallbacks (store m a)). calm (error (store m a)) cb"
  shows "exec (Suc (Suc n)) (MaybeInvoke a) m
         = Some (Done, clearQueues a
             (m\<lparr>trace := trace m @ concat (map (reported (error (store m a))) (catchCallbacks (store m a)))\<rparr>))"
proof -
  have "forEach (\<lambda>cb. exec (Suc n) (CallCatch cb (error (store m a))))
          (\<lambda>m'. length (catchCallbacks (store m' a)) = length (catchCallbacks (store m a)))
          (catchCallbacks (store m a)) m
        = Some (Done, m\<lparr>trace := trace m @ concat (map (reported (error (store m a))) (catchCallbacks (store m a)))\<rparr>)"
    using assms(2) by (rule forEach_calm) simp
  with assms(1) show ?thesis
    by (subst exec.simps(2)) (simp add: andThen_def del: exec.simps)
qed

lemma reject_calm:
  assumes "state (store m a) = Pending" and "\<forall>cb\<in>set (catchCallbacks (store m a)). calm e cb"
  shows "exec (Suc (Suc (Suc n))) (RejectFn a e) m
         = Some (Done, clearQueues a
             ((settleRejected a e m)\<lparr>trace := trace m @ concat (map (reported e) (catchCallbacks (store m a)))\<rparr>))"
proof -
  let ?m1 = "settleRejected a e m"
  have s: "state (store ?m1 a) = Rejected" "error (store ?m1 a) = e"
    "catchCallbacks (store ?m1 a) = catchCallbacks (store m a)" "trace ?m1 = trace m"
    by (simp_all add: settleRejected_def)
  from assms(2) s have "\<forall>cb\<in>set (catchCallbacks (store ?m1 a)). calm (error (store ?m1 a)) cb"
    by simp
  from drain_rejected_calm[OF s(1) this, of n] s assms(1) show ?thesis
    by (subst exec.simps(2)) (simp del: exec.simps)
qed

lemma drain_rejected_aborts:
  assumes "state (store m a) = Rejected" and "catchCallbacks (store m a) = q @ RawUser tag f # q'"
    and "\<forall>cb\<in>set q. calm (error (store m a)) cb" and "f (error (store m a)) = Some x"
  shows "exec (Suc (Suc n)) (MaybeInvoke a) m
         = Some (Raised x,
             m\<lparr>trace := trace m @ concat (map (reported (error (store m a))) q)
                        @ [InvokedR tag (error (store m a))]\<rparr>)"
  using assms by (simp add: ops forEach_calm_first)

lemma reject_aborts:
  assumes "state (store m a) = Pending" and "catchCallbacks (store m a) = q @ RawUser tag f # q'"
    and "\<forall>cb\<in>set q. calm e cb" and "f e = Some x"
  shows "exec (Suc (Suc (Suc n))) (RejectFn a e) m
         = Some (Raised x,
             (settleRejected a e m)\<lparr>trace := trace m @ concat (map (reported e) q) @ [InvokedR tag e]\<rparr>)"
  using assms by (simp add: ops forEach_calm_first)

lemma raw_step:
  assumes "raw cb"
  shows "\<exists>tr. exec (Suc n) (CallCatch cb e) m = Some (Done, m\<lparr>trace := tr\<rparr>)
           \<or> (\<exists>x. exec (Suc n) (CallCatch cb e) m = Some (Raised x, m\<lparr>trace := tr\<rparr>))"
proof (cases cb)
  case (RawUser tag f)
  show ?thesis
  proof (cases "f e")
    case None
    with RawUser have "exec (Suc n) (CallCatch cb e) m = Some (Done, m\<lparr>trace := trace m @ [InvokedR tag e]\<rparr>)"
      by (simp add: logEvent_def)
    then show ?thesis by blast
  next
    case (Some x)
    with RawUser have "exec (Suc n) (CallCatch cb e) m = Some (Raised x, m\<lparr>trace := trace m @ [InvokedR tag e]\<rparr>)"
      by (simp add: logEvent_def)
    then show ?thesis by blast
  qed
next
  case EmptyFn
  then have "exec (Suc n) (CallCatch cb e) m = Some (Done, m\<lparr>trace := trace m\<rparr>)"
    by simp
  then show ?thesis by blast
qed (use assms in simp_all)

lemma forEach_raw:
  assumes "\<forall>cb\<in>set q. raw cb" and "\<And>tr. intact (m\<lparr>trace := tr\<rparr>)"
  shows "\<exists>tr. forEach (\<lambda>cb. exec (Suc n) (CallCatch cb e)) intact q m = Some (Done, m\<lparr>trace := tr\<rparr>)
           \<or> (\<exists>x. forEach (\<lambda>cb. exec (Suc n) (CallCatch cb e)) intact q m
                   = Some (Raised x, m\<lparr>trace := tr\<rparr>))"
  using assms
proof (induction q arbitrary: m)
  case Nil
  have "forEach (\<lambda>cb. exec (Suc n) (CallCatch cb e)) intact [] m = Some (Done, m\<lparr>trace := trace m\<rparr>)"
    by simp
  then show ?case by blast
next
  case (Cons cb q)
  from Cons.prems(1) have rest: "\<forall>cb\<in>set q. raw cb" and cb: "raw cb" by simp_all
  from raw_step[OF cb, of n e m] obtain tr where
    step: "exec (Suc n) (CallCatch cb e) m = Some (Done, m\<lparr>trace := tr\<rparr>)
           \<or> (\<exists>x. exec (Suc n) (CallCatch cb e) m = Some (Raised x, m\<lparr>trace := tr\<rparr>))"
    by blast
  then show ?case
  proof
    assume quiet: "exec (Suc n) (CallCatch cb e) m = Some (Done, m\<lparr>trace := tr\<rparr>)"
    have ok: "intact (m\<lparr>trace := tr\<rparr>)" by (rule Cons.prems(2))
    have "\<And>tr'. intact (m\<lparr>trace := tr\<rparr>\<lparr>trace := tr'\<rparr>)" using Cons.prems(2) by simp
    from Cons.IH[OF rest this] obtain tr2 where
      ih: "forEach (\<lambda>cb. exec (Suc n) (CallCatch cb e)) intact q (m\<lparr>trace := tr\<rparr>)
             = Some (Done, m\<lparr>trace := tr\<rparr>\<lparr>trace := tr2\<rparr>)
           \<or> (\<exists>x. forEach (\<lambda>cb. exec (Suc n) (CallCatch cb e)) intact q (m\<lparr>trace := tr\<rparr>)
                   = Some (Raised x, m\<lparr>trace := tr\<rparr>\<lparr>trace := tr2\<rparr>))"
      by blast
    have eq: "m\<lparr>trace := tr\<rparr>\<lparr>trace := tr2\<rparr> = m\<lparr>trace := tr2\<rparr>" by simp
    have "forEach (\<lambda>cb. exec (Suc n) (CallCatch cb e)) intact (cb # q) m
          = forEach (\<lambda>cb. exec (Suc n) (CallCatch cb e)) intact q (m\<lparr>trace := tr\<rparr>)"
      using quiet ok by (simp del: exec.simps)
    with ih eq show ?thesis by (metis (no_types))
  next
    assume "\<exists>x. exec (Suc n) (CallCatch cb e) m = Some (Raised x, m\<lparr>trace := tr\<rparr>)"
    then obtain x where fault: "exec (Suc n) (CallCatch cb e) m = Some (Raised x, m\<lparr>trace := tr\<rparr>)"
      by blast
    then have "forEach (\<lambda>cb. exec (Suc n) (CallCatch cb e)) intact (cb # q) m
          = Some (Raised x, m\<lparr>trace := tr\<rparr>)"
      by (simp del: exec.simps)
    then show ?thesis by blast
  qed
qed

lemma reject_raw:
  assumes "state (store m a) = Pending" and "\<forall>cb\<in>set (catchCallbacks (store m a)). raw cb"
  shows "\<exists>s m1. exec (Suc (Suc (Suc n))) (RejectFn a e) m = Some (s, m1)
           \<and> (s = Done \<or> (\<exists>x. s = Raised x)) \<and> settlement (store m1 a) = RejectedWith e"
proof -
  let ?m1 = "settleRejected a e m"
  let ?loop = "forEach (\<lambda>cb. exec (Suc n) (CallCatch cb e))
            (\<lambda>m'. length (catchCallbacks (store m' a)) = length (catchCallbacks (store ?m1 a)))
            (catchCallbacks (store ?m1 a)) ?m1"
  have q: "catchCallbacks (store ?m1 a) = catchCallbacks (store m a)" "state (store ?m1 a) = Rejected"
    "error (store ?m1 a) = e"
    by (simp_all add: settleRejected_def)
  from assms(2) q have "\<forall>cb\<in>set (catchCallbacks (store ?m1 a)). raw cb" by simp
  then have "\<exists>tr. ?loop = Some (Done, ?m1\<lparr>trace := tr\<rparr>)
         \<or> (\<exists>x. ?loop = Some (Raised x, ?m1\<lparr>trace := tr\<rparr>))"
    by (rule forEach_raw) simp
  then obtain tr where loop: "?loop = Some (Done, ?m1\<lparr>trace := tr\<rparr>)
         \<or> (\<exists>x. ?loop = Some (Raised x, ?m1\<lparr>trace := tr\<rparr>))"
    by blast
  have run: "exec (Suc (Suc (Suc n))) (RejectFn a e) m
      = andThen ?loop (\<lambda>m'. Some (Done, clearQueues a m'))"
    using assms(1) q by (simp del: forEach.simps)
  from loop show ?thesis
  proof
    assume "?loop = Some (Done, ?m1\<lparr>trace := tr\<rparr>)"
    with run have "exec (Suc (Suc (Suc n))) (RejectFn a e) m = Some (Done, clearQueues a (?m1\<lparr>trace := tr\<rparr>))"
      by (simp add: andThen_def del: exec.simps forEach.simps)
    moreover have "settlement (store (clearQueues a (?m1\<lparr>trace := tr\<rparr>)) a) = RejectedWith e"
      by (simp add: settlement_def clearQueues_def settleRejected_def)
    ultimately show ?thesis by blast
  next
    assume "\<exists>x. ?loop = Some (Raised x, ?m1\<lparr>trace := tr\<rparr>)"
    then obtain x where "?loop = Some (Raised x, ?m1\<lparr>trace := tr\<rparr>)" by blast
    with run have "exec (Suc (Suc (Suc n))) (RejectFn a e) m = Some (Raised x, ?m1\<lparr>trace := tr\<rparr>)"
      by (simp add: andThen_def del: exec.simps forEach.simps)
    moreover have "settlement (store (?m1\<lparr>trace := tr\<rparr>) a) = RejectedWith e"
      by (simp add: settlement_def settleRejected_def)
    ultimately show ?thesis by blast
  qed
qed

lemma reject_in_try_raw:
  assumes "state (store m0 nxt) = Pending" and "\<forall>cb\<in>set (catchCallbacks (store m0 nxt)). raw cb"
  shows "observe nxt (catching (exec (Suc (Suc (Suc n))) (RejectFn nxt e) m0)
                        (\<lambda>x. exec (Suc (Suc (Suc n))) (RejectFn nxt (captured x))))
         = Some (Done, RejectedWith e)"
proof -
  from reject_raw[OF assms, of n e] obtain s m1 where
    run: "exec (Suc (Suc (Suc n))) (RejectFn nxt e) m0 = Some (s, m1)"
    and s: "s = Done \<or> (\<exists>x. s = Raised x)" and st: "settlement (store m1 nxt) = RejectedWith e"
    by blast
  from st have settled: "state (store m1 nxt) \<noteq> Pending"
    by (auto simp: settlement_def split: PromiseState.splits)
  from s show ?thesis
  proof
    assume "s = Done"
    with run st show ?thesis by (simp add: catching_def observe_def del: exec.simps)
  next
    assume "\<exists>x. s = Raised x"
    then obtain x where "s = Raised x" by blast
    moreover from settled have "exec (Suc (Suc (Suc n))) (RejectFn nxt (captured x)) m1 = Some (Done, m1)"
      by simp
    ultimately show ?thesis using run st by (simp add: catching_def observe_def del: exec.simps)
  qed
qed

lemma chained_step:
  assumes h: "chained old m a v h" and a: "a < old"
    and inv: "\<forall>x<old. x \<noteq> a \<longrightarrow> quiescent m x"
  shows "\<exists>m1. exec (Suc (Suc (Suc (Suc (Suc (Suc n)))))) (CallThen h v) m = Some (Done, m1)
           \<and> trace m1 = trace m @ invocation v h \<and> fresh m \<le> fresh m1
           \<and> store m1 a = store m a
           \<and> (\<forall>x. old \<le> x \<and> x < fresh m \<and> x \<noteq> target h \<longrightarrow> store m1 x = store m x)
           \<and> (\<forall>x<old. x \<noteq> a \<longrightarrow> quiescent m1 x)"
proof (cases h)
  case (HandleFulfilled onF U nxt cur)
  with h obtain tag uf where onF: "onF = UserF tag uf"
    by (cases onF) auto
  from h HandleFulfilled onF have *: "U = unwrap (returnType uf)" "cur = a" "old \<le> nxt"
    "nxt < fresh m" "state (store m nxt) = Pending" "thenCallbacks (store m nxt) = []"
    "catchCallbacks (store m nxt) = []"
    and ret: "case returned uf v of None \<Rightarrow> True | Some b \<Rightarrow> b < old"
    by auto
  from * a have na: "nxt \<noteq> a" by simp
  show ?thesis
  proof (cases uf)
    case (VoidFn f)
    with * na a inv HandleFulfilled onF show ?thesis
      by (cases "f v") (auto simp: ops quiescent_def)
  next
    case (PlainFn f)
    with * na a inv HandleFulfilled onF show ?thesis
      by (cases "f v") (auto simp: ops quiescent_def)
  next
    case (PromiseFn t f)
    show ?thesis
    proof (cases "f v")
      case (Inl x)
      with PromiseFn * na a inv HandleFulfilled onF show ?thesis
        by (auto simp: ops quiescent_def)
    next
      case (Inr p)
      show ?thesis
      proof (cases "d p")
        case None
        with Inr PromiseFn * na a inv HandleFulfilled onF show ?thesis
          by (auto simp: ops quiescent_def)
      next
        case (Some b)
        with ret Inr PromiseFn have b: "b < old" by simp
        show ?thesis
        proof (cases "b = a")
          case True
          with Some Inr PromiseFn * na a inv HandleFulfilled onF show ?thesis
            by (auto simp: ops quiescent_def)
        next
          case False
          with inv b have qb: "quiescent m b" by simp
          from b * have bn: "b \<noteq> nxt" "b < fresh m" "b \<noteq> fresh m" "b \<noteq> Suc (fresh m)" by simp_all
          show ?thesis
          proof (cases "state (store m b)")
            case Pending
            with False b bn Some Inr PromiseFn * na a inv HandleFulfilled onF show ?thesis
              by (auto simp: ops quiescent_def)
          next
            case Fulfilled
            with qb have q: "thenCallbacks (store m b) = []" "catchCallbacks (store m b) = []"
              "\<not> isPromiseVal (stored (store m b))" by (simp_all add: quiescent_def)
            with Fulfilled False b bn Some Inr PromiseFn * na a inv HandleFulfilled onF show ?thesis
              by (cases "stored (store m b)") (auto simp: ops quiescent_def)
          next
            case Rejected
            with qb have q: "thenCallbacks (store m b) = []" "catchCallbacks (store m b) = []"
              by (simp_all add: quiescent_def)
            with Rejected False b bn Some Inr PromiseFn * na a inv HandleFulfilled onF show ?thesis
              by (auto simp: ops quiescent_def)
          qed
        qed
      qed
    qed
  qed
qed


lemma forEach_chained:
  assumes "\<forall>h\<in>set hs. chained old m a v h" and "distinct (map target hs)"
    and "a < old" and "\<forall>x<old. x \<noteq> a \<longrightarrow> quiescent m x"
    and "length (thenCallbacks (store m a)) = k"
  shows "\<exists>m'. forEach (\<lambda>cb. exec (Suc (Suc (Suc (Suc (Suc (Suc n)))))) (CallThen cb v))
                 (\<lambda>m'. length (thenCallbacks (store m' a)) = k) hs m = Some (Done, m')
            \<and> trace m' = trace m @ concat (map (invocation v) hs) \<and> store m' a = store m a"
  using assms
proof (induction hs arbitrary: m)
  case Nil
  then show ?case by simp
next
  case (Cons h hs)
  from Cons.prems have h: "chained old m a v h" by simp
  from chained_step[OF h Cons.prems(3,4), of n] obtain m1 where
    step: "exec (Suc (Suc (Suc (Suc (Suc (Suc n)))))) (CallThen h v) m = Some (Done, m1)"
    and tr: "trace m1 = trace m @ invocation v h" and fr: "fresh m \<le> fresh m1"
    and sa: "store m1 a = store m a"
    and new: "\<forall>x. old \<le> x \<and> x < fresh m \<and> x \<noteq> target h \<longrightarrow> store m1 x = store m x"
    and inv1: "\<forall>x<old. x \<noteq> a \<longrightarrow> quiescent m1 x"
    by blast
  have rest: "\<forall>h'\<in>set hs. chained old m1 a v h'"
  proof
    fix h' assume h': "h' \<in> set hs"
    from Cons.prems have "target h \<notin> target ` set hs" by simp
    with h' have ne: "target h' \<noteq> target h" by (metis imageI)
    from h' Cons.prems have c: "chained old m a v h'" by simp
    then have "old \<le> target h'" "target h' < fresh m" by (cases h'; simp)+
    with new ne have "store m1 (target h') = store m (target h')" by simp
    with c fr show "chained old m1 a v h'" by (cases h') auto
  qed
  from Cons.prems have d: "distinct (map target hs)" by simp
  from sa Cons.prems have len: "length (thenCallbacks (store m1 a)) = k" by simp
  from Cons.IH[OF rest d Cons.prems(3) inv1 len] obtain m' where
    ih: "forEach (\<lambda>cb. exec (Suc (Suc (Suc (Suc (Suc (Suc n)))))) (CallThen cb v))
           (\<lambda>m'. length (thenCallbacks (store m' a)) = k) hs m1 = Some (Done, m')"
      "trace m' = trace m1 @ concat (map (invocation v) hs)" "store m' a = store m1 a"
    by blast
  from step ih len tr sa show ?case by (simp del: exec.simps)
qed

lemma chained_settled:
  assumes "chained old m a v h" and "a < old"
  shows "chained old (settleFulfilled a v m) a v h"
  using assms by (cases h) (auto simp: settleFulfilled_def)

lemma fulfil_drain:
  assumes "state (store m a) = Pending" and "a < old" and "\<not> isPromiseVal v"
    and "\<forall>h\<in>set (thenCallbacks (store m a)). chained old m a v h"
    and "distinct (map target (thenCallbacks (store m a)))"
    and "\<forall>x<old. x \<noteq> a \<longrightarrow> quiescent m x"
  shows "\<exists>m'. exec (Suc (Suc (Suc (Suc (Suc (Suc (Suc (Suc n)))))))) (ResolveFn a v) m = Some (Done, m')
           \<and> thenCallbacks (store m' a) = [] \<and> catchCallbacks (store m' a) = []
           \<and> settlement (store m' a) = FulfilledWith v
           \<and> trace m' = trace m @ concat (map (invocation v) (thenCallbacks (store m a)))"
proof -
  let ?K1 = "Suc (Suc (Suc (Suc (Suc (Suc (Suc n))))))"
  let ?K2 = "Suc (Suc (Suc (Suc (Suc (Suc n)))))"
  let ?m1 = "settleFulfilled a v m"
  let ?hs = "thenCallbacks (store m a)"
  have sv: "stored (store ?m1 a) = v" "state (store ?m1 a) = Fulfilled"
    "thenCallbacks (store ?m1 a) = ?hs" "trace ?m1 = trace m"
    by (simp_all add: settleFulfilled_def)
  from assms(2,4) have hs: "\<forall>h\<in>set ?hs. chained old ?m1 a v h"
    by (auto intro: chained_settled)
  from assms(6) have inv: "\<forall>x<old. x \<noteq> a \<longrightarrow> quiescent ?m1 x"
    by (simp add: quiescent_def settleFulfilled_def)
  have len: "length (thenCallbacks (store ?m1 a)) = length ?hs" by (simp add: sv)
  from forEach_chained[OF hs assms(5,2) inv len, of n] obtain m2 where
    fe: "forEach (\<lambda>cb. exec ?K2 (CallThen cb v))
           (\<lambda>m'. length (thenCallbacks (store m' a)) = length ?hs) ?hs ?m1 = Some (Done, m2)"
    and tr: "trace m2 = trace ?m1 @ concat (map (invocation v) ?hs)"
    and keep: "store m2 a = store ?m1 a"
    by blast
  have mi: "exec ?K1 (MaybeInvoke a) ?m1 = Some (Done, clearQueues a m2)"
    by (subst exec.simps(2)) (simp add: sv fe andThen_def del: forEach.simps exec.simps)
  from assms(1,3) have "exec (Suc ?K1) (ResolveFn a v) m = exec ?K1 (MaybeInvoke a) ?m1"
    by (cases v) simp_all
  with mi have fin: "exec (Suc ?K1) (ResolveFn a v) m = Some (Done, clearQueues a m2)" by simp
  from keep sv tr have "thenCallbacks (store (clearQueues a m2) a) = []"
    "catchCallbacks (store (clearQueues a m2) a) = []"
    "settlement (store (clearQueues a m2) a) = FulfilledWith v"
    "trace (clearQueues a m2) = trace m @ concat (map (invocation v) ?hs)"
    by (simp_all add: clearQueues_def settlement_def)
  with fin show ?thesis by blast
qed

section \<open>Clearing the queues, and late registration\<close>

lemma andThen_clear:
  "andThen r (\<lambda>m'. Some (Done, clearQueues a m')) = Some (Done, m') \<Longrightarrow>
     thenCallbacks (store m' a) = [] \<and> catchCallbacks (store m' a) = []"
  by (auto simp: andThen_def clearQueues_def split: option.splits status.splits)

lemma maybeInvoke_clears:
  "exec k (MaybeInvoke a) m = Some (Done, m') \<Longrightarrow> state (store m a) \<noteq> Pending \<Longrightarrow>
     thenCallbacks (store m' a) = [] \<and> catchCallbacks (store m' a) = []"
  by (cases k; cases "state (store m a)") (auto dest: andThen_clear)

lemma reject_clears:
  assumes "exec k (RejectFn a e) m = Some (Done, m')" and "state (store m a) = Pending"
  shows "thenCallbacks (store m' a) = [] \<and> catchCallbacks (store m' a) = []"
proof (cases k)
  case 0
  with assms show ?thesis by simp
next
  case (Suc n)
  with assms have "exec n (MaybeInvoke a) (settleRejected a e m) = Some (Done, m')" by simp
  then show ?thesis by (rule maybeInvoke_clears) (simp add: settleRejected_def)
qed

lemma resolve_clears:
  assumes "exec k (ResolveFn a v) m = Some (Done, m')" and "state (store m a) = Pending"
    and "\<not> isPromiseVal v"
  shows "thenCallbacks (store m' a) = [] \<and> catchCallbacks (store m' a) = []"
proof (cases k)
  case 0
  with assms show ?thesis by simp
next
  case (Suc n)
  with assms have "exec n (MaybeInvoke a) (settleFulfilled a v m) = Some (Done, m')"
    by (cases v) simp_all
  then show ?thesis by (rule maybeInvoke_clears) (simp add: settleFulfilled_def)
qed

text \<open>
  C9 (amended). Whenever \<^verbatim>\<open>maybeInvoke\<close> on a settled record returns normally, both queues
  of the record are empty; so they are whenever \<^verbatim>\<open>reject\<close> or \<^verbatim>\<open>resolve\<close> (with a plain
  value) has settled a pending record and returned normally. Such drains do return normally:
  the drain of a rejected record, and \<^verbatim>\<open>reject\<close> on a pending record, when every queued
  rejection callback is a \<^verbatim>\<open>catchError\<close> callback that does not raise on the error (each is
  invoked once, in order); and \<^verbatim>\<open>resolve\<close> on a pending record whose fulfilment queue
  holds handlers built by \<^verbatim>\<open>then\<close> whose new promises are still pending without callbacks
  (each continuation is invoked once, in order; a promise that a continuation returns has no
  record or is an older one that is drained if settled). When the first \<^verbatim>\<open>catchError\<close>
  callback that raises is reached, its fault leaves the drain, and \<^verbatim>\<open>reject\<close>, at once:
  nothing has changed but the status and error of the record and the trace, so both queues
  are as they were. And \<^verbatim>\<open>catchError(cb)\<close> on a record that is
  already rejected and drained invokes \<open>cb\<close> with the stored error in the same call: the
  invocation is the one new entry of the trace (the call returns normally when \<open>cb\<close>
  does).
\<close>

theorem queues_cleared_and_late_catch:
  "(exec k (MaybeInvoke a) m = Some (Done, m') \<and> state (store m a) \<noteq> Pending \<longrightarrow>
      thenCallbacks (store m' a) = [] \<and> catchCallbacks (store m' a) = [])
   \<and> (exec k (RejectFn a e) m = Some (Done, m') \<and> state (store m a) = Pending \<longrightarrow>
      thenCallbacks (store m' a) = [] \<and> catchCallbacks (store m' a) = [])
   \<and> (exec k (ResolveFn a v) m = Some (Done, m') \<and> state (store m a) = Pending \<and> \<not> isPromiseVal v \<longrightarrow>
      thenCallbacks (store m' a) = [] \<and> catchCallbacks (store m' a) = [])
   \<and> (state (store m a) = Rejected
        \<and> (\<forall>cb\<in>set (catchCallbacks (store m a)). calm (error (store m a)) cb) \<longrightarrow>
      (\<exists>m1. exec (Suc (Suc n)) (MaybeInvoke a) m = Some (Done, m1)
         \<and> thenCallbacks (store m1 a) = [] \<and> catchCallbacks (store m1 a) = []
         \<and> trace m1 = trace m @ concat (map (reported (error (store m a))) (catchCallbacks (store m a)))))
   \<and> (state (store m a) = Pending \<and> (\<forall>cb\<in>set (catchCallbacks (store m a)). calm e cb) \<longrightarrow>
      (\<exists>m1. exec (Suc (Suc (Suc n))) (RejectFn a e) m = Some (Done, m1)
         \<and> thenCallbacks (store m1 a) = [] \<and> catchCallbacks (store m1 a) = []
         \<and> trace m1 = trace m @ concat (map (reported e) (catchCallbacks (store m a)))))
   \<and> (state (store m a) = Rejected \<and> catchCallbacks (store m a) = q @ RawUser tag f # q'
        \<and> (\<forall>cb\<in>set q. calm (error (store m a)) cb) \<and> f (error (store m a)) = Some x \<longrightarrow>
      exec (Suc (Suc n)) (MaybeInvoke a) m
        = Some (Raised x,
            m\<lparr>trace := trace m @ concat (map (reported (error (store m a))) q)
                       @ [InvokedR tag (error (store m a))]\<rparr>))
   \<and> (state (store m a) = Pending \<and> catchCallbacks (store m a) = q @ RawUser tag f # q'
        \<and> (\<forall>cb\<in>set q. calm e cb) \<and> f e = Some x \<longrightarrow>
      exec (Suc (Suc (Suc n))) (RejectFn a e) m
        = Some (Raised x,
            (settleRejected a e m)\<lparr>trace := trace m @ concat (map (reported e) q) @ [InvokedR tag e]\<rparr>))
   \<and> (state (store m a) = Pending \<and> a < old \<and> \<not> isPromiseVal v
        \<and> (\<forall>h\<in>set (thenCallbacks (store m a)). chained old m a v h)
        \<and> distinct (map target (thenCallbacks (store m a)))
        \<and> (\<forall>x<old. x \<noteq> a \<longrightarrow> quiescent m x) \<longrightarrow>
      (\<exists>m1. exec (Suc (Suc (Suc (Suc (Suc (Suc (Suc (Suc n)))))))) (ResolveFn a v) m = Some (Done, m1)
         \<and> thenCallbacks (store m1 a) = [] \<and> catchCallbacks (store m1 a) = []
         \<and> trace m1 = trace m @ concat (map (invocation v) (thenCallbacks (store m a)))))
   \<and> (state (store m a) = Rejected \<and> thenCallbacks (store m a) = [] \<and> catchCallbacks (store m a) = [] \<longrightarrow>
      traced (exec (Suc (Suc (Suc n))) (CatchError (Promise t (Some a)) (RawUser tag f)) m)
        = Some (case f (error (store m a)) of None \<Rightarrow> Done | Some x \<Rightarrow> Raised x,
                trace m @ [InvokedR tag (error (store m a))]))"
proof -
  have drained: "exec k (MaybeInvoke a) m = Some (Done, m') \<and> state (store m a) \<noteq> Pending \<longrightarrow>
      thenCallbacks (store m' a) = [] \<and> catchCallbacks (store m' a) = []"
    using maybeInvoke_clears[of k a m m'] by simp
  have rejected: "exec k (RejectFn a e) m = Some (Done, m') \<and> state (store m a) = Pending \<longrightarrow>
      thenCallbacks (store m' a) = [] \<and> catchCallbacks (store m' a) = []"
    using reject_clears[of k a e m m'] by simp
  have resolved: "exec k (ResolveFn a v) m = Some (Done, m') \<and> state (store m a) = Pending
      \<and> \<not> isPromiseVal v \<longrightarrow>
      thenCallbacks (store m' a) = [] \<and> catchCallbacks (store m' a) = []"
    using resolve_clears[of k a v m m'] by simp
  have calmDrain: "state (store m a) = Rejected
        \<and> (\<forall>cb\<in>set (catchCallbacks (store m a)). calm (error (store m a)) cb) \<longrightarrow>
      (\<exists>m1. exec (Suc (Suc n)) (MaybeInvoke a) m = Some (Done, m1)
         \<and> thenCallbacks (store m1 a) = [] \<and> catchCallbacks (store m1 a) = []
         \<and> trace m1 = trace m @ concat (map (reported (error (store m a))) (catchCallbacks (store m a))))"
    by (simp add: drain_rejected_calm clearQueues_def del: exec.simps)
  have calmReject: "state (store m a) = Pending \<and> (\<forall>cb\<in>set (catchCallbacks (store m a)). calm e cb) \<longrightarrow>
      (\<exists>m1. exec (Suc (Suc (Suc n))) (RejectFn a e) m = Some (Done, m1)
         \<and> thenCallbacks (store m1 a) = [] \<and> catchCallbacks (store m1 a) = []
         \<and> trace m1 = trace m @ concat (map (reported e) (catchCallbacks (store m a))))"
    by (simp add: reject_calm clearQueues_def del: exec.simps)
  have abortDrain: "state (store m a) = Rejected \<and> catchCallbacks (store m a) = q @ RawUser tag f # q'
        \<and> (\<forall>cb\<in>set q. calm (error (store m a)) cb) \<and> f (error (store m a)) = Some x \<longrightarrow>
      exec (Suc (Suc n)) (MaybeInvoke a) m
        = Some (Raised x,
            m\<lparr>trace := trace m @ concat (map (reported (error (store m a))) q)
                       @ [InvokedR tag (error (store m a))]\<rparr>)"
    using drain_rejected_aborts[of m a q tag f q' x n] by blast
  have abortReject: "state (store m a) = Pending \<and> catchCallbacks (store m a) = q @ RawUser tag f # q'
        \<and> (\<forall>cb\<in>set q. calm e cb) \<and> f e = Some x \<longrightarrow>
      exec (Suc (Suc (Suc n))) (RejectFn a e) m
        = Some (Raised x,
            (settleRejected a e m)\<lparr>trace := trace m @ concat (map (reported e) q) @ [InvokedR tag e]\<rparr>)"
    using reject_aborts[of m a q tag f q' e x n] by blast
  have fulfil: "state (store m a) = Pending \<and> a < old \<and> \<not> isPromiseVal v
        \<and> (\<forall>h\<in>set (thenCallbacks (store m a)). chained old m a v h)
        \<and> distinct (map target (thenCallbacks (store m a)))
        \<and> (\<forall>x<old. x \<noteq> a \<longrightarrow> quiescent m x) \<longrightarrow>
      (\<exists>m1. exec (Suc (Suc (Suc (Suc (Suc (Suc (Suc (Suc n)))))))) (ResolveFn a v) m = Some (Done, m1)
         \<and> thenCallbacks (store m1 a) = [] \<and> catchCallbacks (store m1 a) = []
         \<and> trace m1 = trace m @ concat (map (invocation v) (thenCallbacks (store m a))))"
    using fulfil_drain[of m a old v n] by blast
  have late: "state (store m a) = Rejected \<and> thenCallbacks (store m a) = []
      \<and> catchCallbacks (store m a) = [] \<longrightarrow>
      traced (exec (Suc (Suc (Suc n))) (CatchError (Promise t (Some a)) (RawUser tag f)) m)
        = Some (case f (error (store m a)) of None \<Rightarrow> Done | Some x \<Rightarrow> Raised x,
                trace m @ [InvokedR tag (error (store m a))])"
    by (cases "f (error (store m a))") (simp_all add: ops obs)
  show ?thesis
    by (rule conjI[OF drained conjI[OF rejected conjI[OF resolved
          conjI[OF calmDrain conjI[OF calmReject conjI[OF abortDrain conjI[OF abortReject
          conjI[OF fulfil late]]]]]]]])
qed

theorem queues_cleared_and_late_catch_witness:
  "catchCallbacks (store (snd (the (exec (Suc (Suc 0)) (MaybeInvoke 0)
       (machineOf [(recordWith Rejected (VPlain 0) boom)\<lparr>catchCallbacks := [RawUser 1 (\<lambda>e. None)]\<rparr>])))) 0) = []
   \<and> catchCallbacks (store (snd (the (exec (Suc (Suc (Suc 0))) (RejectFn 0 boom)
       (machineOf [(recordWith Pending (VPlain 0) noError)\<lparr>catchCallbacks := [RawUser 1 (\<lambda>e. None)]\<rparr>])))) 0) = []
   \<and> thenCallbacks (store (snd (the (exec (Suc (Suc (Suc 0))) (ResolveFn 0 (VPlain 4))
       (machineOf [(recordWith Pending (VPlain 0) noError)\<lparr>catchCallbacks := [RawUser 1 (\<lambda>e. None)]\<rparr>])))) 0) = []
   \<and> catchCallbacks (store (snd (the (exec (Suc (Suc (Suc 0))) (ResolveFn 0 (VPlain 4))
       (machineOf [(recordWith Pending (VPlain 0) noError)\<lparr>catchCallbacks := [RawUser 1 (\<lambda>e. None)]\<rparr>])))) 0) = []
   \<and> (\<exists>m1. exec (Suc (Suc 0)) (MaybeInvoke 0)
          (machineOf [(recordWith Rejected (VPlain 0) boom)\<lparr>catchCallbacks := [RawUser 1 (\<lambda>e. None), EmptyFn]\<rparr>])
         = Some (Done, m1)
       \<and> thenCallbacks (store m1 0) = [] \<and> catchCallbacks (store m1 0) = []
       \<and> trace m1 = [InvokedR 1 boom])
   \<and> (\<exists>m1. exec (Suc (Suc (Suc 0))) (RejectFn 0 boom)
          (machineOf [(recordWith Pending (VPlain 0) noError)\<lparr>catchCallbacks := [RawUser 1 (\<lambda>e. None), EmptyFn]\<rparr>])
         = Some (Done, m1)
       \<and> thenCallbacks (store m1 0) = [] \<and> catchCallbacks (store m1 0) = []
       \<and> trace m1 = [InvokedR 1 boom])
   \<and> exec (Suc (Suc 0)) (MaybeInvoke 0)
          (machineOf [(recordWith Rejected (VPlain 0) boom)
                        \<lparr>catchCallbacks := [EmptyFn, RawUser 1 (\<lambda>e. Some OtherFault), RawUser 2 (\<lambda>e. None)]\<rparr>])
       = Some (Raised OtherFault,
           (machineOf [(recordWith Rejected (VPlain 0) boom)
                        \<lparr>catchCallbacks := [EmptyFn, RawUser 1 (\<lambda>e. Some OtherFault), RawUser 2 (\<lambda>e. None)]\<rparr>])
             \<lparr>trace := [InvokedR 1 boom]\<rparr>)
   \<and> exec (Suc (Suc (Suc 0))) (RejectFn 0 boom)
          (machineOf [(recordWith Pending (VPlain 0) noError)
                        \<lparr>catchCallbacks := [EmptyFn, RawUser 1 (\<lambda>e. Some OtherFault), RawUser 2 (\<lambda>e. None)]\<rparr>])
       = Some (Raised OtherFault,
           (settleRejected 0 boom
              (machineOf [(recordWith Pending (VPlain 0) noError)
                        \<lparr>catchCallbacks := [EmptyFn, RawUser 1 (\<lambda>e. Some OtherFault), RawUser 2 (\<lambda>e. None)]\<rparr>]))
             \<lparr>trace := [InvokedR 1 boom]\<rparr>)
   \<and> (\<exists>m1. exec (Suc (Suc (Suc (Suc (Suc (Suc (Suc (Suc 0)))))))) (ResolveFn 0 (VPlain 4))
          (machineOf [(recordWith Pending (VPlain 0) noError)
                        \<lparr>thenCallbacks := [HandleFulfilled (UserF 1 (PlainFn (\<lambda>v. Inr 1))) TPlain 1 0]\<rparr>,
                      recordWith Pending (VPlain 0) noError])
         = Some (Done, m1)
       \<and> thenCallbacks (store m1 0) = [] \<and> catchCallbacks (store m1 0) = []
       \<and> trace m1 = [InvokedF 1 (VPlain 4)])
   \<and> traced (exec (Suc (Suc (Suc 0))) (CatchError (Promise TPlain (Some 0)) (RawUser 1 (\<lambda>e. None)))
         (machineOf [recordWith Rejected (VPlain 0) boom]))
      = Some (Done, [InvokedR 1 boom])"
proof -
  let ?m = "machineOf [(recordWith Rejected (VPlain 0) boom)\<lparr>catchCallbacks := [RawUser 1 (\<lambda>e. None)]\<rparr>]"
  let ?mp = "machineOf [(recordWith Pending (VPlain 0) noError)\<lparr>catchCallbacks := [RawUser 1 (\<lambda>e. None)]\<rparr>]"
  let ?mc = "machineOf [(recordWith Rejected (VPlain 0) boom)\<lparr>catchCallbacks := [RawUser 1 (\<lambda>e. None), EmptyFn]\<rparr>]"
  let ?mq = "machineOf [(recordWith Pending (VPlain 0) noError)\<lparr>catchCallbacks := [RawUser 1 (\<lambda>e. None), EmptyFn]\<rparr>]"
  let ?h = "HandleFulfilled (UserF 1 (PlainFn (\<lambda>v. Inr 1))) TPlain 1 0"
  let ?mt = "machineOf [(recordWith Pending (VPlain 0) noError)\<lparr>thenCallbacks := [?h]\<rparr>,
                      recordWith Pending (VPlain 0) noError]"
  let ?r = "exec (Suc (Suc 0)) (MaybeInvoke 0) ?m"
  let ?r1 = "exec (Suc (Suc (Suc 0))) (RejectFn 0 boom) ?mp"
  let ?r2 = "exec (Suc (Suc (Suc 0))) (ResolveFn 0 (VPlain 4)) ?mp"
  let ?m2 = "machineOf [recordWith Rejected (VPlain 0) boom]"
  have h1: "?r = Some (Done, snd (the ?r))" by (simp add: samples ops)
  have h2: "state (store ?m 0) \<noteq> Pending" by (simp add: samples)
  have p1: "?r1 = Some (Done, snd (the ?r1))" by (simp add: samples ops)
  have p2: "?r2 = Some (Done, snd (the ?r2))" by (simp add: samples ops)
  have p3: "state (store ?mp 0) = Pending" "\<not> isPromiseVal (VPlain 4)" by (simp_all add: samples)
  have h3: "state (store ?m2 0) = Rejected" "thenCallbacks (store ?m2 0) = []"
    "catchCallbacks (store ?m2 0) = []" by (simp_all add: samples)
  have v: "error (store ?m2 0) = boom" "trace ?m2 = []" by (simp_all add: samples)
  have k1: "state (store ?mc 0) = Rejected" "error (store ?mc 0) = boom" "trace ?mc = []"
    "catchCallbacks (store ?mc 0) = [RawUser 1 (\<lambda>e. None), EmptyFn]"
    by (simp_all add: samples)
  have k2: "state (store ?mq 0) = Pending" "trace ?mq = []"
    "catchCallbacks (store ?mq 0) = [RawUser 1 (\<lambda>e. None), EmptyFn]"
    by (simp_all add: samples)
  let ?ca = "machineOf [(recordWith Rejected (VPlain 0) boom)
                        \<lparr>catchCallbacks := [EmptyFn, RawUser 1 (\<lambda>e. Some OtherFault), RawUser 2 (\<lambda>e. None)]\<rparr>]"
  let ?cb = "machineOf [(recordWith Pending (VPlain 0) noError)
                        \<lparr>catchCallbacks := [EmptyFn, RawUser 1 (\<lambda>e. Some OtherFault), RawUser 2 (\<lambda>e. None)]\<rparr>]"
  have a1: "state (store ?ca 0) = Rejected" "error (store ?ca 0) = boom" "trace ?ca = []"
    "catchCallbacks (store ?ca 0) = [EmptyFn] @ RawUser 1 (\<lambda>e. Some OtherFault) # [RawUser 2 (\<lambda>e. None)]"
    "\<forall>cb\<in>set [EmptyFn]. calm boom cb"
    by (simp_all add: samples)
  have a2: "state (store ?cb 0) = Pending" "trace ?cb = []"
    "catchCallbacks (store ?cb 0) = [EmptyFn] @ RawUser 1 (\<lambda>e. Some OtherFault) # [RawUser 2 (\<lambda>e. None)]"
    "\<forall>cb\<in>set [EmptyFn]. calm boom cb"
    by (simp_all add: samples)
  have k3: "state (store ?mt 0) = Pending" "trace ?mt = []" "thenCallbacks (store ?mt 0) = [?h]"
    "chained (Suc 0) ?mt 0 (VPlain 4) ?h" "\<forall>x<Suc 0. x \<noteq> 0 \<longrightarrow> quiescent ?mt x"
    by (simp_all add: samples)
  from queues_cleared_and_late_catch[where k = "Suc (Suc 0)" and a = 0 and m = ?m and m' = "snd (the ?r)"] h1 h2
  have c1: "catchCallbacks (store (snd (the ?r)) 0) = []"
    by (simp del: exec.simps)
  from queues_cleared_and_late_catch[where k = "Suc (Suc (Suc 0))" and a = 0 and m = ?mp and m' = "snd (the ?r1)" and e = boom] p1 p3
  have c2: "catchCallbacks (store (snd (the ?r1)) 0) = []"
    by (simp del: exec.simps)
  from queues_cleared_and_late_catch[where k = "Suc (Suc (Suc 0))" and a = 0 and m = ?mp and m' = "snd (the ?r2)" and v = "VPlain 4"] p2 p3
  have c3: "thenCallbacks (store (snd (the ?r2)) 0) = [] \<and> catchCallbacks (store (snd (the ?r2)) 0) = []"
    by (simp del: exec.simps)
  from queues_cleared_and_late_catch[where a = 0 and m = ?mc and n = 0] k1
  have c4: "\<exists>m1. exec (Suc (Suc 0)) (MaybeInvoke 0) ?mc = Some (Done, m1)
       \<and> thenCallbacks (store m1 0) = [] \<and> catchCallbacks (store m1 0) = []
       \<and> trace m1 = [InvokedR 1 boom]"
    by (simp del: exec.simps)
  from queues_cleared_and_late_catch[where a = 0 and m = ?mq and n = 0 and e = boom] k2
  have c5: "\<exists>m1. exec (Suc (Suc (Suc 0))) (RejectFn 0 boom) ?mq = Some (Done, m1)
       \<and> thenCallbacks (store m1 0) = [] \<and> catchCallbacks (store m1 0) = []
       \<and> trace m1 = [InvokedR 1 boom]"
    by (simp del: exec.simps)
  from queues_cleared_and_late_catch[where a = 0 and m = ?ca and n = 0 and q = "[EmptyFn]" and tag = 1
      and f = "\<lambda>e. Some OtherFault" and q' = "[RawUser 2 (\<lambda>e. None)]" and x = OtherFault] a1
  have d1: "exec (Suc (Suc 0)) (MaybeInvoke 0) ?ca = Some (Raised OtherFault, ?ca\<lparr>trace := [InvokedR 1 boom]\<rparr>)"
    by (simp del: exec.simps)
  from queues_cleared_and_late_catch[where a = 0 and m = ?cb and n = 0 and q = "[EmptyFn]" and tag = 1
      and f = "\<lambda>e. Some OtherFault" and q' = "[RawUser 2 (\<lambda>e. None)]" and x = OtherFault and e = boom] a2
  have d2: "exec (Suc (Suc (Suc 0))) (RejectFn 0 boom) ?cb
      = Some (Raised OtherFault, (settleRejected 0 boom ?cb)\<lparr>trace := [InvokedR 1 boom]\<rparr>)"
    by (simp del: exec.simps)
  from queues_cleared_and_late_catch[where a = 0 and m = ?mt and n = 0 and v = "VPlain 4" and old = "Suc 0"] k3
  have c6: "\<exists>m1. exec (Suc (Suc (Suc (Suc (Suc (Suc (Suc (Suc 0)))))))) (ResolveFn 0 (VPlain 4)) ?mt = Some (Done, m1)
       \<and> thenCallbacks (store m1 0) = [] \<and> catchCallbacks (store m1 0) = []
       \<and> trace m1 = [InvokedF 1 (VPlain 4)]"
    by (simp del: exec.simps)
  from queues_cleared_and_late_catch[where a = 0 and m = ?m2 and n = 0 and t = TPlain and tag = 1 and f = "\<lambda>e. None"] h3 v
  have c7: "traced (exec (Suc (Suc (Suc 0))) (CatchError (Promise TPlain (Some 0)) (RawUser 1 (\<lambda>e. None))) ?m2)
      = Some (Done, [InvokedR 1 boom])"
    by (simp del: exec.simps)
  from c1 c2 c3 c4 c5 d1 d2 c6 c7 show ?thesis by (simp del: exec.simps)
qed

text \<open>
  As the specification states it, C9 fails for a drain that a callback leaves by a fault:
  \<^verbatim>\<open>maybeInvoke\<close> has no \<^verbatim>\<open>try\<close>, so the fault of the first \<^verbatim>\<open>catchError\<close> callback skips
  both calls of \<^verbatim>\<open>clear()\<close>. After \<^verbatim>\<open>reject\<close>, the record still holds its two rejection
  callbacks, and the second one has not been invoked.
\<close>

theorem aborted_drain_keeps_queue:
  "queued 0
     (run (Suc (Suc (Suc (Suc 0))))
        [Construct TPlain \<lparr>calls = [], raises = None\<rparr>,
         Invoke (CatchError (Promise TPlain (Some 0)) (RawUser 1 raiseBoom)),
         Invoke (CatchError (Promise TPlain (Some 0)) (RawUser 2 keepQuiet)),
         Invoke (RejectFn 0 boom)]
        emptyMachine)
     = Some (Raised (StdException ''boom''), 0, 2)
   \<and> traced
     (run (Suc (Suc (Suc (Suc 0))))
        [Construct TPlain \<lparr>calls = [], raises = None\<rparr>,
         Invoke (CatchError (Promise TPlain (Some 0)) (RawUser 1 raiseBoom)),
         Invoke (CatchError (Promise TPlain (Some 0)) (RawUser 2 keepQuiet)),
         Invoke (RejectFn 0 boom)]
        emptyMachine)
     = Some (Raised (StdException ''boom''), [InvokedR 1 boom])"
  by (simp add: ops obs queued_def newPromise_def emptyMachine_def raiseBoom_def keepQuiet_def)

section \<open>Chaining cycles\<close>

lemma reject_in_try_sticks:
  assumes "catching (exec n (RejectFn nxt e) m0) (\<lambda>x. exec n (RejectFn nxt (captured x))) = Some (s, m')"
    and "nxt < fresh m0" and "state (store m0 nxt) = Pending"
  shows "settlement (store m' nxt) = RejectedWith e"
proof (cases "exec n (RejectFn nxt e) m0")
  case None
  with assms(1) show ?thesis by (simp add: catching_def)
next
  case (Some r)
  obtain s1 m1 where r: "r = (s1, m1)" by (cases r)
  with Some have run: "exec n (RejectFn nxt e) m0 = Some (s1, m1)" by simp
  from reject_sticks[OF run assms(2,3)] have st: "settlement (store m1 nxt) = RejectedWith e" .
  then have settled: "state (store m1 nxt) \<noteq> Pending"
    by (auto simp: settlement_def split: PromiseState.splits)
  show ?thesis
  proof (cases s1)
    case (Raised x)
    with assms(1) run have again: "exec n (RejectFn nxt (captured x)) m1 = Some (s, m')"
      by (simp add: catching_def)
    with settled have "m' = m1" by (cases n) simp_all
    with st show ?thesis by simp
  qed (use assms(1) run st in \<open>simp_all add: catching_def\<close>)
qed

lemma cycle_handler_fulfilled:
  assumes "returned (PromiseFn t f) v = Some cur"
  shows "exec (Suc n) (CallThen (HandleFulfilled (UserF tag (PromiseFn t f)) U nxt cur) v) m
         = catching (exec n (RejectFn nxt cycleError) (logEvent (InvokedF tag v) m))
             (\<lambda>x. exec n (RejectFn nxt (captured x)))"
  using assms by (simp split: sum.splits)

lemma cycle_handler_rejected:
  assumes "returned (PromiseFn t g) e = Some cur"
  shows "exec (Suc n) (CallCatch (HandleRejected tag (PromiseFn t g) U nxt cur) e) m
         = catching (exec n (RejectFn nxt cycleError) (logEvent (InvokedR tag e) m))
             (\<lambda>x. exec n (RejectFn nxt (captured x)))"
  using assms by (simp split: sum.splits)

text \<open>
  C5 (amended). Let a continuation handed to \<^verbatim>\<open>then\<close> (\<^verbatim>\<open>onFulfilled\<close> or \<^verbatim>\<open>onRejected\<close>)
  return a promise backed by the record of the source, the promise \<^verbatim>\<open>then\<close> was called on
  (\<^verbatim>\<open>currentState\<close>). On a source that is already settled, \<^verbatim>\<open>then\<close> returns normally and
  its new promise is rejected with "Chaining cycle detected for promise", code -1. On a
  pending source, \<^verbatim>\<open>then\<close> queues the handler; when the handler is called later, in any
  machine: if the new promise is already settled, nothing changes but the trace; if it is
  still pending, it is rejected with that error however the call ends, and the call returns
  normally when the only rejection callbacks queued on the new promise are \<^verbatim>\<open>catchError\<close>
  callbacks (\<^verbatim>\<open>reject\<close> is called inside the \<^verbatim>\<open>try\<close> of the handler, which catches a
  fault of theirs). So does \<^verbatim>\<open>resolve\<close> on the source right after \<^verbatim>\<open>then\<close>.
\<close>

theorem chaining_cycle_rejected:
  "(state (store m a) = Fulfilled \<and> a < fresh m \<and> returned (PromiseFn t f) (stored (store m a)) = Some a \<longrightarrow>
      observe (fresh m) (exec (Suc (Suc (Suc (Suc n)))) (Then (Promise t (Some a)) (UserF tag (PromiseFn t f)) onR) m)
        = Some (Done, RejectedWith cycleError))
   \<and> (state (store m a) = Rejected \<and> a < fresh m \<and> returned (PromiseFn t g) (error (store m a)) = Some a \<longrightarrow>
      observe (fresh m) (exec (Suc (Suc (Suc (Suc n)))) (Then (Promise t (Some a)) onF (Some (tag, PromiseFn t g))) m)
        = Some (Done, RejectedWith cycleError))
   \<and> (state (store m a) = Pending \<longrightarrow>
      exec (Suc n) (Then (Promise t (Some a)) (UserF tag (PromiseFn t f)) (Some (tag', PromiseFn t g))) m
        = Some (Done,
            pushCatch a (HandleRejected tag' (PromiseFn t g) t (fresh m) a)
              (pushThen a (HandleFulfilled (UserF tag (PromiseFn t f)) t (fresh m) a) (allocState t m))))
   \<and> (state (store m nxt) \<noteq> Pending \<and> returned (PromiseFn t f) v = Some cur \<longrightarrow>
      exec (Suc (Suc n)) (CallThen (HandleFulfilled (UserF tag (PromiseFn t f)) U nxt cur) v) m
        = Some (Done, logEvent (InvokedF tag v) m))
   \<and> (state (store m nxt) \<noteq> Pending \<and> returned (PromiseFn t g) e = Some cur \<longrightarrow>
      exec (Suc (Suc n)) (CallCatch (HandleRejected tag (PromiseFn t g) U nxt cur) e) m
        = Some (Done, logEvent (InvokedR tag e) m))
   \<and> (state (store m nxt) = Pending \<and> nxt < fresh m \<and> returned (PromiseFn t f) v = Some cur
        \<and> exec k (CallThen (HandleFulfilled (UserF tag (PromiseFn t f)) U nxt cur) v) m = Some (s, m') \<longrightarrow>
      settlement (store m' nxt) = RejectedWith cycleError)
   \<and> (state (store m nxt) = Pending \<and> nxt < fresh m \<and> returned (PromiseFn t g) e = Some cur
        \<and> exec k (CallCatch (HandleRejected tag (PromiseFn t g) U nxt cur) e) m = Some (s, m') \<longrightarrow>
      settlement (store m' nxt) = RejectedWith cycleError)
   \<and> (state (store m nxt) = Pending \<and> (\<forall>cb\<in>set (catchCallbacks (store m nxt)). raw cb)
        \<and> returned (PromiseFn t f) v = Some cur \<longrightarrow>
      observe nxt (exec (Suc (Suc (Suc (Suc n)))) (CallThen (HandleFulfilled (UserF tag (PromiseFn t f)) U nxt cur) v) m)
        = Some (Done, RejectedWith cycleError))
   \<and> (state (store m nxt) = Pending \<and> (\<forall>cb\<in>set (catchCallbacks (store m nxt)). raw cb)
        \<and> returned (PromiseFn t g) e = Some cur \<longrightarrow>
      observe nxt (exec (Suc (Suc (Suc (Suc n)))) (CallCatch (HandleRejected tag (PromiseFn t g) U nxt cur) e) m)
        = Some (Done, RejectedWith cycleError))
   \<and> (state (store m a) = Pending \<and> a < fresh m \<and> thenCallbacks (store m a) = [] \<and> \<not> isPromiseVal v
        \<and> returned (PromiseFn t f) v = Some a \<longrightarrow>
      observe (fresh m)
        (andThen (exec (Suc n) (Then (Promise t (Some a)) (UserF tag (PromiseFn t f)) onR) m)
           (exec (Suc (Suc (Suc (Suc (Suc n))))) (ResolveFn a v)))
        = Some (Done, RejectedWith cycleError))
   \<and> code cycleError = - 1 \<and> message cycleError = ''Chaining cycle detected for promise''"
proof -
  have onFulfilled: "state (store m a) = Fulfilled \<and> a < fresh m
        \<and> returned (PromiseFn t f) (stored (store m a)) = Some a \<longrightarrow>
      observe (fresh m) (exec (Suc (Suc (Suc (Suc n)))) (Then (Promise t (Some a)) (UserF tag (PromiseFn t f)) onR) m)
        = Some (Done, RejectedWith cycleError)"
    by (auto simp: ops obs split: sum.splits)
  have onRejected: "state (store m a) = Rejected \<and> a < fresh m
        \<and> returned (PromiseFn t g) (error (store m a)) = Some a \<longrightarrow>
      observe (fresh m) (exec (Suc (Suc (Suc (Suc n)))) (Then (Promise t (Some a)) onF (Some (tag, PromiseFn t g))) m)
        = Some (Done, RejectedWith cycleError)"
    by (auto simp: ops obs split: sum.splits)
  have queues: "state (store m a) = Pending \<longrightarrow>
      exec (Suc n) (Then (Promise t (Some a)) (UserF tag (PromiseFn t f)) (Some (tag', PromiseFn t g))) m
        = Some (Done,
            pushCatch a (HandleRejected tag' (PromiseFn t g) t (fresh m) a)
              (pushThen a (HandleFulfilled (UserF tag (PromiseFn t f)) t (fresh m) a) (allocState t m)))"
    by (auto simp: ops)
  have settledF: "state (store m nxt) \<noteq> Pending \<and> returned (PromiseFn t f) v = Some cur \<longrightarrow>
      exec (Suc (Suc n)) (CallThen (HandleFulfilled (UserF tag (PromiseFn t f)) U nxt cur) v) m
        = Some (Done, logEvent (InvokedF tag v) m)"
    by (auto simp: ops split: sum.splits)
  have settledR: "state (store m nxt) \<noteq> Pending \<and> returned (PromiseFn t g) e = Some cur \<longrightarrow>
      exec (Suc (Suc n)) (CallCatch (HandleRejected tag (PromiseFn t g) U nxt cur) e) m
        = Some (Done, logEvent (InvokedR tag e) m)"
    by (auto simp: ops split: sum.splits)
  have sticksF: "state (store m nxt) = Pending \<and> nxt < fresh m \<and> returned (PromiseFn t f) v = Some cur
        \<and> exec k (CallThen (HandleFulfilled (UserF tag (PromiseFn t f)) U nxt cur) v) m = Some (s, m') \<longrightarrow>
      settlement (store m' nxt) = RejectedWith cycleError"
  proof (cases k)
    case 0
    then show ?thesis by simp
  next
    case (Suc j)
    show ?thesis
    proof (intro impI, elim conjE)
      assume p: "state (store m nxt) = Pending" "nxt < fresh m" and r: "returned (PromiseFn t f) v = Some cur"
        and x: "exec k (CallThen (HandleFulfilled (UserF tag (PromiseFn t f)) U nxt cur) v) m = Some (s, m')"
      from x Suc cycle_handler_fulfilled[OF r, of j tag U nxt m]
      have "catching (exec j (RejectFn nxt cycleError) (logEvent (InvokedF tag v) m))
              (\<lambda>x. exec j (RejectFn nxt (captured x))) = Some (s, m')"
        by (simp del: exec.simps)
      then show "settlement (store m' nxt) = RejectedWith cycleError"
        by (rule reject_in_try_sticks) (use p in \<open>simp_all add: logEvent_def\<close>)
    qed
  qed
  have sticksR: "state (store m nxt) = Pending \<and> nxt < fresh m \<and> returned (PromiseFn t g) e = Some cur
        \<and> exec k (CallCatch (HandleRejected tag (PromiseFn t g) U nxt cur) e) m = Some (s, m') \<longrightarrow>
      settlement (store m' nxt) = RejectedWith cycleError"
  proof (cases k)
    case 0
    then show ?thesis by simp
  next
    case (Suc j)
    show ?thesis
    proof (intro impI, elim conjE)
      assume p: "state (store m nxt) = Pending" "nxt < fresh m" and r: "returned (PromiseFn t g) e = Some cur"
        and x: "exec k (CallCatch (HandleRejected tag (PromiseFn t g) U nxt cur) e) m = Some (s, m')"
      from x Suc cycle_handler_rejected[OF r, of j tag U nxt m]
      have "catching (exec j (RejectFn nxt cycleError) (logEvent (InvokedR tag e) m))
              (\<lambda>x. exec j (RejectFn nxt (captured x))) = Some (s, m')"
        by (simp del: exec.simps)
      then show "settlement (store m' nxt) = RejectedWith cycleError"
        by (rule reject_in_try_sticks) (use p in \<open>simp_all add: logEvent_def\<close>)
    qed
  qed
  have rawF: "state (store m nxt) = Pending \<and> (\<forall>cb\<in>set (catchCallbacks (store m nxt)). raw cb)
        \<and> returned (PromiseFn t f) v = Some cur \<longrightarrow>
      observe nxt (exec (Suc (Suc (Suc (Suc n)))) (CallThen (HandleFulfilled (UserF tag (PromiseFn t f)) U nxt cur) v) m)
        = Some (Done, RejectedWith cycleError)"
  proof (intro impI, elim conjE)
    assume p: "state (store m nxt) = Pending" "\<forall>cb\<in>set (catchCallbacks (store m nxt)). raw cb"
      and r: "returned (PromiseFn t f) v = Some cur"
    from p have "state (store (logEvent (InvokedF tag v) m) nxt) = Pending"
      "\<forall>cb\<in>set (catchCallbacks (store (logEvent (InvokedF tag v) m) nxt)). raw cb"
      by (simp_all add: logEvent_def)
    from reject_in_try_raw[OF this, of n cycleError] cycle_handler_fulfilled[OF r, of "Suc (Suc (Suc n))" tag U nxt m]
    show "observe nxt (exec (Suc (Suc (Suc (Suc n)))) (CallThen (HandleFulfilled (UserF tag (PromiseFn t f)) U nxt cur) v) m)
        = Some (Done, RejectedWith cycleError)"
      by (simp del: exec.simps)
  qed
  have rawR: "state (store m nxt) = Pending \<and> (\<forall>cb\<in>set (catchCallbacks (store m nxt)). raw cb)
        \<and> returned (PromiseFn t g) e = Some cur \<longrightarrow>
      observe nxt (exec (Suc (Suc (Suc (Suc n)))) (CallCatch (HandleRejected tag (PromiseFn t g) U nxt cur) e) m)
        = Some (Done, RejectedWith cycleError)"
  proof (intro impI, elim conjE)
    assume p: "state (store m nxt) = Pending" "\<forall>cb\<in>set (catchCallbacks (store m nxt)). raw cb"
      and r: "returned (PromiseFn t g) e = Some cur"
    from p have "state (store (logEvent (InvokedR tag e) m) nxt) = Pending"
      "\<forall>cb\<in>set (catchCallbacks (store (logEvent (InvokedR tag e) m) nxt)). raw cb"
      by (simp_all add: logEvent_def)
    from reject_in_try_raw[OF this, of n cycleError] cycle_handler_rejected[OF r, of "Suc (Suc (Suc n))" tag U nxt m]
    show "observe nxt (exec (Suc (Suc (Suc (Suc n)))) (CallCatch (HandleRejected tag (PromiseFn t g) U nxt cur) e) m)
        = Some (Done, RejectedWith cycleError)"
      by (simp del: exec.simps)
  qed
  have later: "state (store m a) = Pending \<and> a < fresh m \<and> thenCallbacks (store m a) = [] \<and> \<not> isPromiseVal v
        \<and> returned (PromiseFn t f) v = Some a \<longrightarrow>
      observe (fresh m)
        (andThen (exec (Suc n) (Then (Promise t (Some a)) (UserF tag (PromiseFn t f)) onR) m)
           (exec (Suc (Suc (Suc (Suc (Suc n))))) (ResolveFn a v)))
        = Some (Done, RejectedWith cycleError)"
    by (cases v) (auto simp: ops obs split: option.splits sum.splits)
  have err: "code cycleError = - 1 \<and> message cycleError = ''Chaining cycle detected for promise''"
    by (simp add: cycleError_def)
  show ?thesis
    by (rule conjI[OF onFulfilled conjI[OF onRejected conjI[OF queues conjI[OF settledF conjI[OF settledR
          conjI[OF sticksF conjI[OF sticksR conjI[OF rawF conjI[OF rawR conjI[OF later err]]]]]]]]]])
qed

theorem chaining_cycle_rejected_witness:
  "observe (fresh (machineOf [recordWith Fulfilled (VPlain 5) noError]))
       (exec (Suc (Suc (Suc (Suc 0)))) (Then (Promise TPlain (Some 0))
           (UserF 1 (PromiseFn TPlain (\<lambda>v. Inr (Promise TPlain (Some 0))))) None)
         (machineOf [recordWith Fulfilled (VPlain 5) noError]))
     = Some (Done, RejectedWith cycleError)
   \<and> observe (fresh (machineOf [recordWith Rejected (VPlain 0) boom]))
       (exec (Suc (Suc (Suc (Suc 0)))) (Then (Promise TPlain (Some 0)) (UserF 1 (PlainFn (\<lambda>v. Inr 0)))
           (Some (2, PromiseFn TPlain (\<lambda>e. Inr (Promise TPlain (Some 0))))))
         (machineOf [recordWith Rejected (VPlain 0) boom]))
     = Some (Done, RejectedWith cycleError)
   \<and> exec (Suc 0) (Then (Promise TPlain (Some 0))
           (UserF 1 (PromiseFn TPlain (\<lambda>v. Inr (Promise TPlain (Some 0)))))
           (Some (2, PromiseFn TPlain (\<lambda>e. Inr (Promise TPlain (Some 0))))))
         (machineOf [recordWith Pending (VPlain 0) noError])
     = Some (Done,
         pushCatch 0 (HandleRejected 2 (PromiseFn TPlain (\<lambda>e. Inr (Promise TPlain (Some 0)))) TPlain 1 0)
           (pushThen 0 (HandleFulfilled (UserF 1 (PromiseFn TPlain (\<lambda>v. Inr (Promise TPlain (Some 0))))) TPlain 1 0)
              (allocState TPlain (machineOf [recordWith Pending (VPlain 0) noError]))))
   \<and> exec (Suc (Suc 0))
         (CallThen (HandleFulfilled (UserF 1 (PromiseFn TPlain (\<lambda>v. Inr (Promise TPlain (Some 0))))) TPlain 1 0) (VPlain 5))
         (machineOf [recordWith Fulfilled (VPlain 5) noError, recordWith Fulfilled (VPlain 1) noError])
     = Some (Done, logEvent (InvokedF 1 (VPlain 5))
         (machineOf [recordWith Fulfilled (VPlain 5) noError, recordWith Fulfilled (VPlain 1) noError]))
   \<and> exec (Suc (Suc 0))
         (CallCatch (HandleRejected 2 (PromiseFn TPlain (\<lambda>e. Inr (Promise TPlain (Some 0)))) TPlain 1 0) boom)
         (machineOf [recordWith Rejected (VPlain 0) boom, recordWith Fulfilled (VPlain 1) noError])
     = Some (Done, logEvent (InvokedR 2 boom)
         (machineOf [recordWith Rejected (VPlain 0) boom, recordWith Fulfilled (VPlain 1) noError]))
   \<and> settlement (store (snd (the (exec (Suc (Suc (Suc (Suc 0))))
         (CallThen (HandleFulfilled (UserF 1 (PromiseFn TPlain (\<lambda>v. Inr (Promise TPlain (Some 0))))) TPlain 1 0) (VPlain 5))
         (machineOf [recordWith Fulfilled (VPlain 5) noError,
                     (recordWith Pending (VPlain 0) noError)\<lparr>catchCallbacks := [RawUser 3 (\<lambda>e. Some OtherFault)]\<rparr>])))) 1)
     = RejectedWith cycleError
   \<and> settlement (store (snd (the (exec (Suc (Suc (Suc (Suc 0))))
         (CallCatch (HandleRejected 2 (PromiseFn TPlain (\<lambda>e. Inr (Promise TPlain (Some 0)))) TPlain 1 0) boom)
         (machineOf [recordWith Rejected (VPlain 0) boom,
                     (recordWith Pending (VPlain 0) noError)\<lparr>catchCallbacks := [RawUser 3 (\<lambda>e. Some OtherFault)]\<rparr>])))) 1)
     = RejectedWith cycleError
   \<and> observe 1 (exec (Suc (Suc (Suc (Suc 0))))
         (CallThen (HandleFulfilled (UserF 1 (PromiseFn TPlain (\<lambda>v. Inr (Promise TPlain (Some 0))))) TPlain 1 0) (VPlain 5))
         (machineOf [recordWith Fulfilled (VPlain 5) noError,
                     (recordWith Pending (VPlain 0) noError)\<lparr>catchCallbacks := [RawUser 3 (\<lambda>e. Some OtherFault)]\<rparr>]))
     = Some (Done, RejectedWith cycleError)
   \<and> observe 1 (exec (Suc (Suc (Suc (Suc 0))))
         (CallCatch (HandleRejected 2 (PromiseFn TPlain (\<lambda>e. Inr (Promise TPlain (Some 0)))) TPlain 1 0) boom)
         (machineOf [recordWith Rejected (VPlain 0) boom,
                     (recordWith Pending (VPlain 0) noError)\<lparr>catchCallbacks := [RawUser 3 (\<lambda>e. Some OtherFault)]\<rparr>]))
     = Some (Done, RejectedWith cycleError)
   \<and> observe (fresh (machineOf [recordWith Pending (VPlain 0) noError]))
       (andThen
          (exec (Suc 0) (Then (Promise TPlain (Some 0))
             (UserF 1 (PromiseFn TPlain (\<lambda>v. Inr (Promise TPlain (Some 0))))) None)
             (machineOf [recordWith Pending (VPlain 0) noError]))
          (exec (Suc (Suc (Suc (Suc (Suc 0))))) (ResolveFn 0 (VPlain 5))))
     = Some (Done, RejectedWith cycleError)"
proof -
  let ?mp = "machineOf [recordWith Pending (VPlain 0) noError]"
  let ?mf = "machineOf [recordWith Fulfilled (VPlain 5) noError]"
  let ?mr = "machineOf [recordWith Rejected (VPlain 0) boom]"
  let ?sf = "machineOf [recordWith Fulfilled (VPlain 5) noError, recordWith Fulfilled (VPlain 1) noError]"
  let ?sr = "machineOf [recordWith Rejected (VPlain 0) boom, recordWith Fulfilled (VPlain 1) noError]"
  let ?pf = "machineOf [recordWith Fulfilled (VPlain 5) noError,
                     (recordWith Pending (VPlain 0) noError)\<lparr>catchCallbacks := [RawUser 3 (\<lambda>e. Some OtherFault)]\<rparr>]"
  let ?pr = "machineOf [recordWith Rejected (VPlain 0) boom,
                     (recordWith Pending (VPlain 0) noError)\<lparr>catchCallbacks := [RawUser 3 (\<lambda>e. Some OtherFault)]\<rparr>]"
  let ?f = "\<lambda>v::val. Inr (Promise TPlain (Some 0)) :: fault + promise"
  let ?g = "\<lambda>e::PromiseError. Inr (Promise TPlain (Some 0)) :: fault + promise"
  let ?hF = "HandleFulfilled (UserF 1 (PromiseFn TPlain ?f)) TPlain 1 0"
  let ?hR = "HandleRejected 2 (PromiseFn TPlain ?g) TPlain 1 0"
  let ?K = "Suc (Suc (Suc (Suc 0)))"
  let ?rF = "exec ?K (CallThen ?hF (VPlain 5)) ?pf"
  let ?rR = "exec ?K (CallCatch ?hR boom) ?pr"
  have ret: "\<And>v. returned (PromiseFn TPlain ?f) v = Some 0" "\<And>e. returned (PromiseFn TPlain ?g) e = Some 0"
    by simp_all
  have p: "state (store ?mp 0) = Pending" "thenCallbacks (store ?mp 0) = []" "0 < fresh ?mp"
    "\<not> isPromiseVal (VPlain 5)" by (simp_all add: samples)
  have f: "state (store ?mf 0) = Fulfilled" "0 < fresh ?mf" by (simp_all add: samples)
  have r: "state (store ?mr 0) = Rejected" "0 < fresh ?mr" by (simp_all add: samples)
  have sf: "state (store ?sf 1) \<noteq> Pending" and sr: "state (store ?sr 1) \<noteq> Pending"
    by (simp_all add: samples)
  have pf: "state (store ?pf 1) = Pending" "1 < fresh ?pf"
    "\<forall>cb\<in>set (catchCallbacks (store ?pf 1)). raw cb"
    by (simp_all add: samples)
  have pr: "state (store ?pr 1) = Pending" "1 < fresh ?pr"
    "\<forall>cb\<in>set (catchCallbacks (store ?pr 1)). raw cb"
    by (simp_all add: samples)
  have xF: "?rF = Some (fst (the ?rF), snd (the ?rF))" by (simp add: samples ops)
  have xR: "?rR = Some (fst (the ?rR), snd (the ?rR))" by (simp add: samples ops)
  from chaining_cycle_rejected[where m = ?mf and a = 0 and n = 0 and t = TPlain and f = ?f
      and tag = 1 and onR = None] f ret
  have c1: "observe (fresh ?mf)
       (exec ?K (Then (Promise TPlain (Some 0)) (UserF 1 (PromiseFn TPlain ?f)) None) ?mf)
     = Some (Done, RejectedWith cycleError)"
    by (simp del: exec.simps)
  from chaining_cycle_rejected[where m = ?mr and a = 0 and n = 0 and t = TPlain and g = ?g
      and tag = 2 and onF = "UserF 1 (PlainFn (\<lambda>v. Inr 0))"] r ret
  have c2: "observe (fresh ?mr)
       (exec ?K (Then (Promise TPlain (Some 0)) (UserF 1 (PlainFn (\<lambda>v. Inr 0)))
           (Some (2, PromiseFn TPlain ?g))) ?mr)
     = Some (Done, RejectedWith cycleError)"
    by (simp del: exec.simps)
  from chaining_cycle_rejected[where m = ?mp and a = 0 and n = 0 and t = TPlain and f = ?f and g = ?g
      and tag = 1 and tag' = 2] p
  have c3: "exec (Suc 0) (Then (Promise TPlain (Some 0)) (UserF 1 (PromiseFn TPlain ?f))
           (Some (2, PromiseFn TPlain ?g))) ?mp
     = Some (Done, pushCatch 0 ?hR (pushThen 0 ?hF (allocState TPlain ?mp)))"
    by (simp add: samples del: exec.simps)
  from chaining_cycle_rejected[where m = ?sf and nxt = 1 and cur = 0 and n = 0 and t = TPlain and f = ?f
      and v = "VPlain 5" and tag = 1 and U = TPlain] sf ret
  have c4: "exec (Suc (Suc 0)) (CallThen ?hF (VPlain 5)) ?sf = Some (Done, logEvent (InvokedF 1 (VPlain 5)) ?sf)"
    by (simp del: exec.simps)
  from chaining_cycle_rejected[where m = ?sr and nxt = 1 and cur = 0 and n = 0 and t = TPlain and g = ?g
      and e = boom and tag = 2 and U = TPlain] sr ret
  have c5: "exec (Suc (Suc 0)) (CallCatch ?hR boom) ?sr = Some (Done, logEvent (InvokedR 2 boom) ?sr)"
    by (simp del: exec.simps)
  from chaining_cycle_rejected[where m = ?pf and nxt = 1 and cur = 0 and k = ?K and t = TPlain and f = ?f
      and v = "VPlain 5" and tag = 1 and U = TPlain and s = "fst (the ?rF)" and m' = "snd (the ?rF)"] pf ret xF
  have c6: "settlement (store (snd (the ?rF)) 1) = RejectedWith cycleError"
    by (simp del: exec.simps)
  from chaining_cycle_rejected[where m = ?pr and nxt = 1 and cur = 0 and k = ?K and t = TPlain and g = ?g
      and e = boom and tag = 2 and U = TPlain and s = "fst (the ?rR)" and m' = "snd (the ?rR)"] pr ret xR
  have c7: "settlement (store (snd (the ?rR)) 1) = RejectedWith cycleError"
    by (simp del: exec.simps)
  from chaining_cycle_rejected[where m = ?pf and nxt = 1 and cur = 0 and n = 0 and t = TPlain and f = ?f
      and v = "VPlain 5" and tag = 1 and U = TPlain] pf ret
  have c8: "observe 1 (exec ?K (CallThen ?hF (VPlain 5)) ?pf) = Some (Done, RejectedWith cycleError)"
    by (simp del: exec.simps)
  from chaining_cycle_rejected[where m = ?pr and nxt = 1 and cur = 0 and n = 0 and t = TPlain and g = ?g
      and e = boom and tag = 2 and U = TPlain] pr ret
  have c9: "observe 1 (exec ?K (CallCatch ?hR boom) ?pr) = Some (Done, RejectedWith cycleError)"
    by (simp del: exec.simps)
  from chaining_cycle_rejected[where m = ?mp and a = 0 and n = 0 and t = TPlain and f = ?f
      and v = "VPlain 5" and tag = 1 and onR = None] p ret
  have c10: "observe (fresh ?mp)
       (andThen (exec (Suc 0) (Then (Promise TPlain (Some 0)) (UserF 1 (PromiseFn TPlain ?f)) None) ?mp)
          (exec (Suc (Suc (Suc (Suc (Suc 0))))) (ResolveFn 0 (VPlain 5))))
     = Some (Done, RejectedWith cycleError)"
    by (simp del: exec.simps)
  from c1 c2 c3 c4 c5 c6 c7 c8 c9 c10 show ?thesis by (simp del: exec.simps)
qed

text \<open>
  As the specification states it, C5 fails for \<^verbatim>\<open>then\<close>: the check compares the returned promise with
  the source, not with the promise being settled. A continuation that returns the new
  promise itself (\<^verbatim>\<open>next = p.then([&]{ return next; })\<close> on a pending \<open>p\<close>, settled
  later) is not detected: the new promise, at address 1, waits for itself and stays
  pending.
\<close>

theorem self_returning_continuation_pending:
  "observe 1
     (run (Suc (Suc (Suc (Suc (Suc (Suc 0))))))
        [Construct TPlain \<lparr>calls = [], raises = None\<rparr>,
         Invoke (Then (Promise TPlain (Some 0)) (UserF 1 (PromiseFn TPlain returnSecond)) None),
         Invoke (ResolveFn 0 (VPlain 5))]
        emptyMachine)
   = Some (Done, StillPending)"
  by (simp add: ops obs newPromise_def emptyMachine_def returnSecond_def)

section \<open>No record is fulfilled with a promise\<close>















section \<open>Flattening\<close>






















section \<open>Order of the continuations\<close>






section \<open>Faults of callbacks\<close>

lemma plain_call_step:
  assumes "thenCallbacks (store m a) = []" and "catchCallbacks (store m a) = []" and "plainCall c"
  shows "\<exists>m1. exec (Suc (Suc n)) (capability a c) m = Some (Done, m1)
           \<and> thenCallbacks (store m1 a) = [] \<and> catchCallbacks (store m1 a) = []
           \<and> state (store m1 a) \<noteq> Pending"
proof (cases c)
  case (CallResolve v)
  with assms show ?thesis by (cases v) (auto simp: ops)
next
  case (CallReject e)
  with assms show ?thesis by (auto simp: ops)
qed

lemma plain_calls_run:
  assumes "thenCallbacks (store m a) = []" and "catchCallbacks (store m a) = []"
    and "\<forall>c\<in>set cs. plainCall c"
  shows "\<exists>m'. forEach (\<lambda>c. exec (Suc (Suc n)) (capability a c)) (\<lambda>m'. True) cs m = Some (Done, m')
           \<and> thenCallbacks (store m' a) = [] \<and> catchCallbacks (store m' a) = []
           \<and> (cs \<noteq> [] \<longrightarrow> state (store m' a) \<noteq> Pending)
           \<and> (cs = [] \<longrightarrow> m' = m)"
  using assms
proof (induction cs arbitrary: m)
  case Nil
  then show ?case by simp
next
  case (Cons c cs)
  from Cons.prems plain_call_step[of m a c n] obtain m1 where
    step: "exec (Suc (Suc n)) (capability a c) m = Some (Done, m1)"
    and q1: "thenCallbacks (store m1 a) = []" "catchCallbacks (store m1 a) = []"
    and s1: "state (store m1 a) \<noteq> Pending"
    by auto
  from Cons.prems have "\<forall>c\<in>set cs. plainCall c" by simp
  from Cons.IH[OF q1 this] obtain m' where
    ih: "forEach (\<lambda>c. exec (Suc (Suc n)) (capability a c)) (\<lambda>m'. True) cs m1 = Some (Done, m')"
      "thenCallbacks (store m' a) = []" "catchCallbacks (store m' a) = []"
      "cs \<noteq> [] \<longrightarrow> state (store m' a) \<noteq> Pending" "cs = [] \<longrightarrow> m' = m1"
    by blast
  from s1 ih(4,5) have "state (store m' a) \<noteq> Pending" by (cases cs) auto
  with step ih show ?case by (simp del: exec.simps)
qed

lemma executor_fault_caught:
  assumes "\<forall>c\<in>set (calls ex). plainCall c" and "raises ex = Some x"
  shows "\<exists>m'. newPromise (Suc (Suc n)) t ex m = Some (Done, m')
           \<and> state (store m' (fresh m)) \<noteq> Pending
           \<and> (calls ex = [] \<longrightarrow> settlement (store m' (fresh m)) = RejectedWith (captured x))"
proof -
  let ?m0 = "allocState t m"
  have q0: "thenCallbacks (store ?m0 (fresh m)) = []" "catchCallbacks (store ?m0 (fresh m)) = []"
    by (simp_all add: ops)
  from plain_calls_run[OF q0 assms(1), of n] obtain m1 where
    fe: "forEach (\<lambda>c. exec (Suc (Suc n)) (capability (fresh m) c)) (\<lambda>m'. True) (calls ex) ?m0
         = Some (Done, m1)"
    and q1: "thenCallbacks (store m1 (fresh m)) = []" "catchCallbacks (store m1 (fresh m)) = []"
    and s1: "calls ex \<noteq> [] \<longrightarrow> state (store m1 (fresh m)) \<noteq> Pending"
    and e1: "calls ex = [] \<longrightarrow> m1 = ?m0"
    by blast
  have np: "newPromise (Suc (Suc n)) t ex m = exec (Suc (Suc n)) (RejectFn (fresh m) (captured x)) m1"
    unfolding newPromise_def fe using assms(2) by (simp add: andThen_def catching_def del: exec.simps)
  show ?thesis
  proof (cases "calls ex = []")
    case True
    with e1 have "m1 = ?m0" by simp
    with np True show ?thesis by (simp add: ops settlement_def)
  next
    case False
    with s1 have "state (store m1 (fresh m)) \<noteq> Pending" by simp
    with np False show ?thesis by simp
  qed
qed

lemma then_fault_on_fulfilled:
  assumes "a < fresh m" and "state (store m a) = Fulfilled"
    and "faultOf uf (stored (store m a)) = Some x"
  shows "observe (fresh m) (exec (Suc (Suc (Suc (Suc n)))) (Then (Promise t (Some a)) (UserF tag uf) onR) m)
         = Some (Done, RejectedWith (captured x))"
  using assms(3)
proof (cases rule: faultOf_cases)
  case (Void f)
  with assms(1,2) show ?thesis by (simp add: ops obs)
next
  case (Plain f)
  with assms(1,2) show ?thesis by (simp add: ops obs)
next
  case (Prom t f)
  with assms(1,2) show ?thesis by (simp add: ops obs)
qed

lemma then_fault_on_rejected:
  assumes "a < fresh m" and "state (store m a) = Rejected"
    and "faultOf g (error (store m a)) = Some x"
  shows "observe (fresh m) (exec (Suc (Suc (Suc (Suc n)))) (Then (Promise t (Some a)) onF (Some (tag, g))) m)
         = Some (Done, RejectedWith (captured x))"
  using assms(3)
proof (cases rule: faultOf_cases)
  case (Void f)
  with assms(1,2) show ?thesis by (simp add: ops obs)
next
  case (Plain f)
  with assms(1,2) show ?thesis by (simp add: ops obs)
next
  case (Prom t f)
  with assms(1,2) show ?thesis by (simp add: ops obs)
qed

lemma then_fault_in_drain_fulfilled:
  assumes "a < fresh m" and "state (store m a) = Pending"
    and "thenCallbacks (store m a) = []" and "catchCallbacks (store m a) = []"
    and "\<not> isPromiseVal v" and "faultOf uf v = Some x"
  shows "observe (fresh m)
           (andThen (exec (Suc n) (Then (Promise t (Some a)) (UserF tag uf) onR) m)
              (exec (Suc (Suc (Suc (Suc (Suc n))))) (ResolveFn a v)))
         = Some (Done, RejectedWith (captured x))"
  using assms(6)
proof (cases rule: faultOf_cases)
  case (Void f)
  with assms(1-5) show ?thesis by (cases v) (simp_all add: ops obs)
next
  case (Plain f)
  with assms(1-5) show ?thesis by (cases v) (simp_all add: ops obs)
next
  case (Prom t f)
  with assms(1-5) show ?thesis by (cases v) (simp_all add: ops obs)
qed

lemma then_fault_in_drain_rejected:
  assumes "a < fresh m" and "state (store m a) = Pending"
    and "thenCallbacks (store m a) = []" and "catchCallbacks (store m a) = []"
    and "faultOf g e = Some x"
  shows "observe (fresh m)
           (andThen (exec (Suc n) (Then (Promise t (Some a)) onF (Some (tag, g))) m)
              (exec (Suc (Suc (Suc (Suc (Suc n))))) (RejectFn a e)))
         = Some (Done, RejectedWith (captured x))"
  using assms(5)
proof (cases rule: faultOf_cases)
  case (Void f)
  with assms(1-4) show ?thesis by (simp add: ops obs)
next
  case (Plain f)
  with assms(1-4) show ?thesis by (simp add: ops obs)
next
  case (Prom t f)
  with assms(1-4) show ?thesis by (simp add: ops obs)
qed

lemma handler_fault_is_reject:
  assumes "faultOf uf v = Some x"
  shows "exec (Suc n) (CallThen (HandleFulfilled (UserF tag uf) U nxt cur) v) m
         = exec n (RejectFn nxt (captured x)) (logEvent (InvokedF tag v) m)"
  using assms by (cases rule: faultOf_cases) (simp_all add: catching_def)

lemma rejection_handler_fault_is_reject:
  assumes "faultOf g e = Some x"
  shows "exec (Suc n) (CallCatch (HandleRejected tag g U nxt cur) e) m
         = exec n (RejectFn nxt (captured x)) (logEvent (InvokedR tag e) m)"
  using assms by (cases rule: faultOf_cases) (simp_all add: catching_def)

text \<open>
  C1 (amended). A native fault raised by an executor body, or by a continuation handed to
  \<^verbatim>\<open>then\<close> (\<^verbatim>\<open>onFulfilled\<close> or \<^verbatim>\<open>onRejected\<close>), is caught where the callback is invoked and
  does not propagate out of the call that triggered it. In any machine, the call of a
  handler built by \<^verbatim>\<open>then\<close> whose user callback raises is the call of \<^verbatim>\<open>reject\<close> on the
  new promise with the captured fault. The construction of a promise
  whose executor raises (after any calls of its capabilities with plain values) returns
  normally with the promise settled, rejected with the captured fault if the executor had
  made no call. A continuation that raises leaves the new promise of \<^verbatim>\<open>then\<close> rejected
  with the captured fault, and the triggering call returns normally: \<^verbatim>\<open>then\<close> itself on a
  settled source, and the later \<^verbatim>\<open>resolve\<close> or \<^verbatim>\<open>reject\<close> that drains the queue of a
  source that was pending.
\<close>

theorem callback_faults_caught:
  assumes "a < fresh m"
  shows "(faultOf uf v = Some x \<longrightarrow>
          exec (Suc n) (CallThen (HandleFulfilled (UserF tag uf) U nxt cur) v) m
            = exec n (RejectFn nxt (captured x)) (logEvent (InvokedF tag v) m))
    \<and> (faultOf g e = Some x \<longrightarrow>
          exec (Suc n) (CallCatch (HandleRejected tag g U nxt cur) e) m
            = exec n (RejectFn nxt (captured x)) (logEvent (InvokedR tag e) m))
    \<and> ((\<forall>c\<in>set (calls ex). plainCall c) \<and> raises ex = Some x \<longrightarrow>
          (\<exists>m'. newPromise (Suc (Suc n)) t ex m = Some (Done, m')
             \<and> state (store m' (fresh m)) \<noteq> Pending
             \<and> (calls ex = [] \<longrightarrow> settlement (store m' (fresh m)) = RejectedWith (captured x))))
    \<and> (state (store m a) = Fulfilled \<and> faultOf uf (stored (store m a)) = Some x \<longrightarrow>
          observe (fresh m) (exec (Suc (Suc (Suc (Suc n)))) (Then (Promise t (Some a)) (UserF tag uf) onR) m)
            = Some (Done, RejectedWith (captured x)))
    \<and> (state (store m a) = Rejected \<and> faultOf g (error (store m a)) = Some x \<longrightarrow>
          observe (fresh m) (exec (Suc (Suc (Suc (Suc n)))) (Then (Promise t (Some a)) onF (Some (tag, g))) m)
            = Some (Done, RejectedWith (captured x)))
    \<and> (state (store m a) = Pending \<and> thenCallbacks (store m a) = [] \<and> catchCallbacks (store m a) = []
          \<and> \<not> isPromiseVal v \<and> faultOf uf v = Some x \<longrightarrow>
          observe (fresh m)
            (andThen (exec (Suc n) (Then (Promise t (Some a)) (UserF tag uf) onR) m)
               (exec (Suc (Suc (Suc (Suc (Suc n))))) (ResolveFn a v)))
            = Some (Done, RejectedWith (captured x)))
    \<and> (state (store m a) = Pending \<and> thenCallbacks (store m a) = [] \<and> catchCallbacks (store m a) = []
          \<and> faultOf g e = Some x \<longrightarrow>
          observe (fresh m)
            (andThen (exec (Suc n) (Then (Promise t (Some a)) onF (Some (tag, g))) m)
               (exec (Suc (Suc (Suc (Suc (Suc n))))) (RejectFn a e)))
            = Some (Done, RejectedWith (captured x)))"
  using assms executor_fault_caught[of ex x n t m]
  by (simp add: then_fault_on_fulfilled then_fault_on_rejected then_fault_in_drain_fulfilled
      then_fault_in_drain_rejected handler_fault_is_reject rejection_handler_fault_is_reject
      del: exec.simps)

theorem callback_faults_caught_witness:
  "exec (Suc (Suc (Suc 0))) (CallThen (HandleFulfilled (UserF 1 (VoidFn (\<lambda>v. Some OtherFault))) TVoid 1 0) (VPlain 5))
       (machineOf [recordWith Fulfilled (VPlain 5) noError])
     = exec (Suc (Suc 0)) (RejectFn 1 unknownException)
         (logEvent (InvokedF 1 (VPlain 5)) (machineOf [recordWith Fulfilled (VPlain 5) noError]))
   \<and> exec (Suc (Suc (Suc 0))) (CallCatch (HandleRejected 2 (VoidFn (\<lambda>e. Some OtherFault)) TVoid 1 0) boom)
       (machineOf [recordWith Fulfilled (VPlain 5) noError])
     = exec (Suc (Suc 0)) (RejectFn 1 unknownException)
         (logEvent (InvokedR 2 boom) (machineOf [recordWith Fulfilled (VPlain 5) noError]))
   \<and> (\<exists>m'. newPromise (Suc (Suc 0)) TPlain \<lparr>calls = [], raises = Some OtherFault\<rparr>
            (machineOf [recordWith Fulfilled (VPlain 5) noError]) = Some (Done, m')
       \<and> settlement (store m' (fresh (machineOf [recordWith Fulfilled (VPlain 5) noError])))
           = RejectedWith unknownException)
   \<and> observe (fresh (machineOf [recordWith Fulfilled (VPlain 5) noError]))
       (exec (Suc (Suc (Suc (Suc 0)))) (Then (Promise TPlain (Some 0)) (UserF 1 (PlainFn (\<lambda>v. Inl (StdException ''bad'')))) None)
          (machineOf [recordWith Fulfilled (VPlain 5) noError]))
     = Some (Done, RejectedWith (fromException ''bad''))
   \<and> observe (fresh (machineOf [recordWith Rejected (VPlain 0) boom]))
       (exec (Suc (Suc (Suc (Suc 0)))) (Then (Promise TPlain (Some 0)) (UserF 1 (PlainFn (\<lambda>v. Inr 0)))
                   (Some (2, PlainFn (\<lambda>e. Inl (StdException ''bad'')))))
          (machineOf [recordWith Rejected (VPlain 0) boom]))
     = Some (Done, RejectedWith (fromException ''bad''))
   \<and> observe (fresh (machineOf [recordWith Pending (VPlain 0) noError]))
       (andThen
          (exec (Suc 0) (Then (Promise TPlain (Some 0)) (UserF 1 (VoidFn (\<lambda>v. Some OtherFault))) None)
             (machineOf [recordWith Pending (VPlain 0) noError]))
          (exec (Suc (Suc (Suc (Suc (Suc 0))))) (ResolveFn 0 (VPlain 5))))
     = Some (Done, RejectedWith unknownException)
   \<and> observe (fresh (machineOf [recordWith Pending (VPlain 0) noError]))
       (andThen
          (exec (Suc 0) (Then (Promise TPlain (Some 0)) (UserF 1 (PlainFn (\<lambda>v. Inr 0)))
                           (Some (2, VoidFn (\<lambda>e. Some OtherFault))))
             (machineOf [recordWith Pending (VPlain 0) noError]))
          (exec (Suc (Suc (Suc (Suc (Suc 0))))) (RejectFn 0 boom)))
     = Some (Done, RejectedWith unknownException)"
proof -
  let ?mp = "machineOf [recordWith Pending (VPlain 0) noError]"
  let ?mf = "machineOf [recordWith Fulfilled (VPlain 5) noError]"
  let ?mr = "machineOf [recordWith Rejected (VPlain 0) boom]"
  let ?ex = "\<lparr>calls = [], raises = Some OtherFault\<rparr>"
  have p: "0 < fresh ?mp" "state (store ?mp 0) = Pending" "catchCallbacks (store ?mp 0) = []"
    "thenCallbacks (store ?mp 0) = []" by (simp_all add: samples)
  have f: "0 < fresh ?mf" "state (store ?mf 0) = Fulfilled" by (simp_all add: samples)
  have r: "0 < fresh ?mr" "state (store ?mr 0) = Rejected" by (simp_all add: samples)
  have e: "\<forall>c\<in>set (calls ?ex). plainCall c" "raises ?ex = Some OtherFault" "calls ?ex = []"
    by simp_all
  from callback_faults_caught[where m = ?mf and a = 0 and x = OtherFault and n = "Suc (Suc 0)"
      and uf = "VoidFn (\<lambda>v. Some OtherFault)" and v = "VPlain 5" and tag = 1 and U = TVoid
      and nxt = 1 and cur = 0] f
  have c0: "exec (Suc (Suc (Suc 0))) (CallThen (HandleFulfilled (UserF 1 (VoidFn (\<lambda>v. Some OtherFault))) TVoid 1 0) (VPlain 5)) ?mf
     = exec (Suc (Suc 0)) (RejectFn 1 unknownException) (logEvent (InvokedF 1 (VPlain 5)) ?mf)"
    by (simp del: exec.simps)
  from callback_faults_caught[where m = ?mf and a = 0 and x = OtherFault and n = "Suc (Suc 0)"
      and g = "VoidFn (\<lambda>e. Some OtherFault)" and e = boom and tag = 2 and U = TVoid
      and nxt = 1 and cur = 0] f
  have c0': "exec (Suc (Suc (Suc 0))) (CallCatch (HandleRejected 2 (VoidFn (\<lambda>e. Some OtherFault)) TVoid 1 0) boom) ?mf
     = exec (Suc (Suc 0)) (RejectFn 1 unknownException) (logEvent (InvokedR 2 boom) ?mf)"
    by (simp del: exec.simps)
  from callback_faults_caught[where m = ?mf and a = 0 and ex = ?ex and x = OtherFault and n = 0
      and t = TPlain] f e
  have c1: "\<exists>m'. newPromise (Suc (Suc 0)) TPlain ?ex ?mf = Some (Done, m')
       \<and> settlement (store m' (fresh ?mf)) = RejectedWith unknownException"
    by (simp del: exec.simps) blast
  from callback_faults_caught[where m = ?mf and a = 0 and x = "StdException ''bad''" and n = 0
      and t = TPlain and uf = "PlainFn (\<lambda>v. Inl (StdException ''bad''))" and tag = 1 and onR = None] f
  have c2: "observe (fresh ?mf)
       (exec (Suc (Suc (Suc (Suc 0)))) (Then (Promise TPlain (Some 0)) (UserF 1 (PlainFn (\<lambda>v. Inl (StdException ''bad'')))) None) ?mf)
     = Some (Done, RejectedWith (fromException ''bad''))"
    by (simp del: exec.simps)
  from callback_faults_caught[where m = ?mr and a = 0 and x = "StdException ''bad''" and n = 0
      and t = TPlain and g = "PlainFn (\<lambda>e. Inl (StdException ''bad''))" and tag = 2
      and onF = "UserF 1 (PlainFn (\<lambda>v. Inr 0))"] r
  have c3: "observe (fresh ?mr)
       (exec (Suc (Suc (Suc (Suc 0)))) (Then (Promise TPlain (Some 0)) (UserF 1 (PlainFn (\<lambda>v. Inr 0)))
                   (Some (2, PlainFn (\<lambda>e. Inl (StdException ''bad''))))) ?mr)
     = Some (Done, RejectedWith (fromException ''bad''))"
    by (simp del: exec.simps)
  from callback_faults_caught[where m = ?mp and a = 0 and x = OtherFault and n = 0
      and t = TPlain and uf = "VoidFn (\<lambda>v. Some OtherFault)" and tag = 1 and onR = None
      and v = "VPlain 5"] p
  have c4: "observe (fresh ?mp)
       (andThen (exec (Suc 0) (Then (Promise TPlain (Some 0)) (UserF 1 (VoidFn (\<lambda>v. Some OtherFault))) None) ?mp)
          (exec (Suc (Suc (Suc (Suc (Suc 0))))) (ResolveFn 0 (VPlain 5))))
     = Some (Done, RejectedWith unknownException)"
    by (simp del: exec.simps)
  from callback_faults_caught[where m = ?mp and a = 0 and x = OtherFault and n = 0
      and t = TPlain and g = "VoidFn (\<lambda>e. Some OtherFault)" and tag = 2
      and onF = "UserF 1 (PlainFn (\<lambda>v. Inr 0))" and e = boom] p
  have c5: "observe (fresh ?mp)
       (andThen (exec (Suc 0) (Then (Promise TPlain (Some 0)) (UserF 1 (PlainFn (\<lambda>v. Inr 0)))
                           (Some (2, VoidFn (\<lambda>e. Some OtherFault)))) ?mp)
          (exec (Suc (Suc (Suc (Suc (Suc 0))))) (RejectFn 0 boom)))
     = Some (Done, RejectedWith unknownException)"
    by (simp del: exec.simps)
  from c0 c0' c1 c2 c3 c4 c5 show ?thesis by (simp del: exec.simps)
qed

text \<open>
  As the specification states it, C1 fails for a callback registered with \<^verbatim>\<open>catchError\<close>: it is stored
  and called as it is, with no \<^verbatim>\<open>try\<close> around the call in \<^verbatim>\<open>maybeInvoke\<close>. Its fault
  propagates out of the \<^verbatim>\<open>reject\<close> that drains the queue.
\<close>

theorem catch_callback_fault_escapes:
  "observe 0
     (run (Suc (Suc (Suc (Suc 0))))
        [Construct TPlain \<lparr>calls = [], raises = None\<rparr>,
         Invoke (CatchError (Promise TPlain (Some 0)) (RawUser 1 raiseBoom)),
         Invoke (RejectFn 0 \<lparr>message = ''failed'', code = 7\<rparr>)]
        emptyMachine)
   = Some (Raised (StdException ''boom''), RejectedWith \<lparr>message = ''failed'', code = 7\<rparr>)"
  by (simp add: ops obs newPromise_def emptyMachine_def raiseBoom_def)

end
